theory Spec2Isabelle
  imports Complex_Main
begin

section \<open>Stream configurations and the streams table (db_streams.c)\<close>

text \<open>
  The C struct \<^verbatim>\<open>stream_config_t\<close>, with the fields that \<^verbatim>\<open>add_stream_config\<close> binds.
  The C field \<^verbatim>\<open>record\<close> is called \<open>record_flag\<close> here, \<^verbatim>\<open>record\<close> being a keyword.
  C \<^verbatim>\<open>int\<close> fields are integers, \<^verbatim>\<open>bool\<close> fields booleans, the enum
  \<^verbatim>\<open>protocol\<close> its integer value, character arrays strings.
\<close>

record stream_config =
  name :: string
  url :: string
  enabled :: bool
  streaming_enabled :: bool
  width :: int
  height :: int
  fps :: int
  codec :: string
  priority :: int
  record_flag :: bool
  segment_duration :: int
  detection_based_recording :: bool
  detection_model :: string
  detection_threshold :: real
  detection_interval :: int
  pre_detection_buffer :: int
  post_detection_buffer :: int
  protocol :: int
  is_onvif :: bool
  record_audio :: bool

text \<open>
  One row of the SQL table \<^verbatim>\<open>streams\<close>: the columns named by the statements of
  db_streams.c. Flags are stored as integers (\<^verbatim>\<open>stream->enabled ? 1 : 0\<close>).
\<close>

record stream_row =
  row_id :: nat
  col_name :: string
  col_url :: string
  col_enabled :: int
  col_streaming_enabled :: int
  col_width :: int
  col_height :: int
  col_fps :: int
  col_codec :: string
  col_priority :: int
  col_record :: int
  col_segment_duration :: int
  col_detection_based_recording :: int
  col_detection_model :: string
  col_detection_threshold :: real
  col_detection_interval :: int
  col_pre_detection_buffer :: int
  col_post_detection_buffer :: int
  col_protocol :: int
  col_is_onvif :: int
  col_record_audio :: int

text \<open>The statements that the two functions prepare, and which SQLite calls succeed.\<close>

datatype sql_stmt = Check_disabled | Update_disabled | Insert_stream | Select_eligible

record sqlite_faults =
  prepare_ok :: "sql_stmt \<Rightarrow> bool"
  step_ok :: "sql_stmt \<Rightarrow> bool"

definition flag :: "bool \<Rightarrow> int" where
  "flag b = (if b then 1 else 0)"

text \<open>The twenty values bound by the INSERT statement, as a row with the given id.\<close>

definition insert_row :: "nat \<Rightarrow> stream_config \<Rightarrow> stream_row" where
  "insert_row i c =
     \<lparr> row_id = i, col_name = name c, col_url = url c,
       col_enabled = flag (enabled c), col_streaming_enabled = flag (streaming_enabled c),
       col_width = width c, col_height = height c, col_fps = fps c, col_codec = codec c,
       col_priority = priority c, col_record = flag (record_flag c),
       col_segment_duration = segment_duration c,
       col_detection_based_recording = flag (detection_based_recording c),
       col_detection_model = detection_model c,
       col_detection_threshold = detection_threshold c,
       col_detection_interval = detection_interval c,
       col_pre_detection_buffer = pre_detection_buffer c,
       col_post_detection_buffer = post_detection_buffer c,
       col_protocol = protocol c, col_is_onvif = flag (is_onvif c),
       col_record_audio = flag (record_audio c) \<rparr>"

text \<open>
  The nineteen columns set by the UPDATE statement: every column but \<^verbatim>\<open>id\<close> and
  \<^verbatim>\<open>name\<close>.
\<close>

definition update_row :: "stream_row \<Rightarrow> stream_config \<Rightarrow> stream_row" where
  "update_row r c =
     r\<lparr> col_url := url c,
       col_enabled := flag (enabled c), col_streaming_enabled := flag (streaming_enabled c),
       col_width := width c, col_height := height c, col_fps := fps c, col_codec := codec c,
       col_priority := priority c, col_record := flag (record_flag c),
       col_segment_duration := segment_duration c,
       col_detection_based_recording := flag (detection_based_recording c),
       col_detection_model := detection_model c,
       col_detection_threshold := detection_threshold c,
       col_detection_interval := detection_interval c,
       col_pre_detection_buffer := pre_detection_buffer c,
       col_post_detection_buffer := post_detection_buffer c,
       col_protocol := protocol c, col_is_onvif := flag (is_onvif c),
       col_record_audio := flag (record_audio c) \<rparr>"

text \<open>
  Modelled from the spec: the schema of the table (db_schema.c) is not available. The spec
  gives \<^verbatim>\<open>streams(id, name UNIQUE, ...)\<close>: an INSERT whose name is already in the table
  violates the constraint and \<^verbatim>\<open>sqlite3_step\<close> does not return SQLITE_DONE. The id of
  an inserted row is the SQLite rowid, one more than the largest id in the table.
\<close>

definition name_taken :: "stream_row list \<Rightarrow> string \<Rightarrow> bool" where
  "name_taken t n = (\<exists>r \<in> set t. col_name r = n)"

definition last_insert_rowid :: "stream_row list \<Rightarrow> nat" where
  "last_insert_rowid t = Suc (fold max (map row_id t) 0)"

text \<open>
  \<^verbatim>\<open>add_stream_config\<close>. The database handle is \<open>None\<close> when
  \<^verbatim>\<open>get_db_handle()\<close> returns NULL, the configuration is \<open>None\<close> for a NULL pointer.
  The result is the returned id (0 on failure) and the table afterwards.
\<close>

definition add_stream_config ::
  "sqlite_faults \<Rightarrow> stream_row list option \<Rightarrow> stream_config option
     \<Rightarrow> nat \<times> stream_row list option" where
  "add_stream_config f db stream =
     (case db of
        None \<Rightarrow> (0, db)
      | Some t \<Rightarrow>
         (case stream of
            None \<Rightarrow> (0, db)
          | Some c \<Rightarrow>
             if \<not> prepare_ok f Check_disabled then (0, db)
             else
               (case (if step_ok f Check_disabled
                      then find (\<lambda>r. col_name r = name c \<and> col_enabled r = 0) t
                      else None) of
                  Some r \<Rightarrow>
                    (let existing_id = row_id r in
                     if \<not> prepare_ok f Update_disabled then (0, db)
                     else if \<not> step_ok f Update_disabled then (0, db)
                     else (existing_id,
                           Some (map (\<lambda>x. if row_id x = existing_id then update_row x c else x) t)))
                | None \<Rightarrow>
                    if \<not> prepare_ok f Insert_stream then (0, db)
                    else if \<not> step_ok f Insert_stream \<or> name_taken t (name c) then (0, db)
                    else (let stream_id = last_insert_rowid t in
                          (stream_id, Some (t @ [insert_row stream_id c]))))))"

text \<open>
  \<^verbatim>\<open>is_stream_eligible_for_live_streaming\<close>: the first row that the SELECT yields
  decides; a step that yields no row (also a failed step) gives 0.
\<close>

definition is_stream_eligible_for_live_streaming ::
  "sqlite_faults \<Rightarrow> stream_row list option \<Rightarrow> string option \<Rightarrow> int" where
  "is_stream_eligible_for_live_streaming f db stream_name =
     (case db of
        None \<Rightarrow> - 1
      | Some t \<Rightarrow>
         (case stream_name of
            None \<Rightarrow> - 1
          | Some n \<Rightarrow>
             if \<not> prepare_ok f Select_eligible then - 1
             else
               (case (if step_ok f Select_eligible
                      then find (\<lambda>r. col_name r = n) t else None) of
                  Some r \<Rightarrow>
                    (let enabled' = (col_enabled r \<noteq> 0);
                         streaming_enabled' = (col_streaming_enabled r \<noteq> 0)
                     in if enabled' \<and> streaming_enabled' then 1 else 0)
                | None \<Rightarrow> 0)))"

text \<open>No SQLite call fails.\<close>

definition no_faults :: sqlite_faults where
  "no_faults = \<lparr> prepare_ok = (\<lambda>_. True), step_ok = (\<lambda>_. True) \<rparr>"

text \<open>A camera configuration and two rows used in the examples.\<close>

definition cam_config :: stream_config where
  "cam_config =
     \<lparr> name = ''cam'', url = ''rtsp://10.0.0.2/live'', enabled = True,
       streaming_enabled = True, width = 1920, height = 1080, fps = 10,
       codec = ''h264'', priority = 5, record_flag = True, segment_duration = 60,
       detection_based_recording = False, detection_model = [],
       detection_threshold = 0, detection_interval = 10,
       pre_detection_buffer = 5, post_detection_buffer = 3, protocol = 0,
       is_onvif = False, record_audio = False \<rparr>"

definition old_row :: "nat \<Rightarrow> string \<Rightarrow> int \<Rightarrow> stream_row" where
  "old_row i n e =
     \<lparr> row_id = i, col_name = n, col_url = ''rtsp://old'', col_enabled = e,
       col_streaming_enabled = 0, col_width = 640, col_height = 480, col_fps = 5,
       col_codec = ''h264'', col_priority = 1, col_record = 0,
       col_segment_duration = 30, col_detection_based_recording = 0,
       col_detection_model = [], col_detection_threshold = 0,
       col_detection_interval = 0, col_pre_detection_buffer = 0,
       col_post_detection_buffer = 0, col_protocol = 0, col_is_onvif = 0,
       col_record_audio = 0 \<rparr>"

section \<open>Playback of a recording (recordings_playback_task.c)\<close>

text \<open>
  The table \<^verbatim>\<open>g_active_requests\<close>: \<^verbatim>\<open>MAX_ACTIVE_REQUESTS\<close> entries of a recording id
  (\<^verbatim>\<open>uint64_t\<close>) and a flag. Every function below holds \<^verbatim>\<open>g_playback_mutex\<close> while it
  reads or writes the table, so each is one atomic step on the table.
\<close>

record active_request =
  req_id :: nat
  active :: bool

definition MAX_ACTIVE_REQUESTS :: nat where
  "MAX_ACTIVE_REQUESTS = 32"

record playback_state =
  g_active_requests :: "active_request list"
  initialized :: bool

text \<open>\<^verbatim>\<open>init_active_requests\<close>: the first call zeroes the table (\<^verbatim>\<open>memset\<close>).\<close>

definition zero_requests :: "active_request list" where
  "zero_requests = replicate MAX_ACTIVE_REQUESTS \<lparr> req_id = 0, active = False \<rparr>"

definition init_active_requests :: "playback_state \<Rightarrow> playback_state" where
  "init_active_requests st =
     (if \<not> initialized st
      then st\<lparr> g_active_requests := zero_requests, initialized := True \<rparr>
      else st)"

text \<open>The loop of \<^verbatim>\<open>is_request_active\<close>, over the entries in index order.\<close>

fun is_request_active :: "nat \<Rightarrow> active_request list \<Rightarrow> bool" where
  "is_request_active i [] = False"
| "is_request_active i (e # es) =
     (if req_id e = i \<and> active e then True else is_request_active i es)"

text \<open>The second loop of \<^verbatim>\<open>mark_request_active\<close>: the first free slot takes the id.\<close>

fun take_free_slot :: "nat \<Rightarrow> active_request list \<Rightarrow> bool \<times> active_request list" where
  "take_free_slot i [] = (False, [])"
| "take_free_slot i (e # es) =
     (if \<not> active e then (True, e\<lparr> req_id := i, active := True \<rparr> # es)
      else (case take_free_slot i es of (success, es') \<Rightarrow> (success, e # es')))"

text \<open>
  \<^verbatim>\<open>mark_request_active\<close>: its first loop is the test of \<^verbatim>\<open>is_request_active\<close> and
  returns false at an active entry with the id.
\<close>

definition mark_request_active ::
  "nat \<Rightarrow> active_request list \<Rightarrow> bool \<times> active_request list" where
  "mark_request_active i tbl =
     (if is_request_active i tbl then (False, tbl) else take_free_slot i tbl)"

fun mark_request_inactive :: "nat \<Rightarrow> active_request list \<Rightarrow> active_request list" where
  "mark_request_inactive i [] = []"
| "mark_request_inactive i (e # es) =
     (if req_id e = i \<and> active e then e\<lparr> active := False \<rparr> # es
      else e # mark_request_inactive i es)"

text \<open>
  What a handler sends on the connection: a reply with a status, or a file handed to
  \<^verbatim>\<open>mg_http_serve_file\<close> with a MIME type.
\<close>

datatype http_output = Reply nat string | Serve_file string string

text \<open>
  The calls of \<^verbatim>\<open>mg_handle_play_recording\<close> that can fail: the allocation of the
  message copy, the thread pool, the creation of the task and its submission.
\<close>

record play_env =
  hm_copy_ok :: bool
  pool_ok :: bool
  task_create_ok :: bool
  add_task_ok :: bool

text \<open>
  \<^verbatim>\<open>mg_handle_play_recording\<close>. The argument is \<open>None\<close> when the id cannot be extracted from
  the path, and otherwise the value of \<^verbatim>\<open>strtoull\<close> on it. The result is the reply sent
  by the handler (if any), the id of the task given to the thread pool (if any) and the
  state afterwards.
\<close>

definition mg_handle_play_recording ::
  "play_env \<Rightarrow> nat option \<Rightarrow> playback_state
     \<Rightarrow> http_output option \<times> nat option \<times> playback_state" where
  "mg_handle_play_recording env id_param st0 =
     (let st = init_active_requests st0; tbl = g_active_requests st in
      case id_param of
        None \<Rightarrow> (Some (Reply 400 ''Invalid request path''), None, st)
      | Some i \<Rightarrow>
          if i = 0 then (Some (Reply 400 ''Invalid recording ID''), None, st)
          else if is_request_active i tbl
          then (Some (Reply 429 ''This recording is already being processed''), None, st)
          else
            (case mark_request_active i tbl of
               (False, tbl') \<Rightarrow>
                 (Some (Reply 503 ''Too many concurrent requests''), None,
                  st\<lparr> g_active_requests := tbl' \<rparr>)
             | (True, tbl') \<Rightarrow>
                 if \<not> hm_copy_ok env
                 then (Some (Reply 500 ''Internal server error''), None,
                       st\<lparr> g_active_requests := mark_request_inactive i tbl' \<rparr>)
                 else if \<not> pool_ok env
                 then (Some (Reply 500 ''Failed to acquire thread pool''), None,
                       st\<lparr> g_active_requests := mark_request_inactive i tbl' \<rparr>)
                 else if \<not> task_create_ok env
                 then (Some (Reply 500 ''Failed to create playback recording task''), None,
                       st\<lparr> g_active_requests := mark_request_inactive i tbl' \<rparr>)
                 else if \<not> add_task_ok env
                 then (Some (Reply 500
                         ''Failed to add playback recording task to thread pool''), None,
                       st\<lparr> g_active_requests := mark_request_inactive i tbl' \<rparr>)
                 else (None, Some i, st\<lparr> g_active_requests := tbl' \<rparr>)))"

text \<open>
  The task run by the thread pool. A task carries its connection (\<open>None\<close> for NULL, with
  the flag \<^verbatim>\<open>is_closing\<close>) and the recording id.
\<close>

record mg_connection =
  is_closing :: bool

record playback_recording_task =
  connection :: "mg_connection option"
  task_id :: nat

text \<open>The one field of \<^verbatim>\<open>recording_metadata_t\<close> that the task reads.\<close>

record recording_metadata =
  file_path :: string

text \<open>\<^verbatim>\<open>strrchr(path, '.')\<close>: the suffix from the last dot on, if there is a dot.\<close>

fun strrchr_dot :: "string \<Rightarrow> string option" where
  "strrchr_dot [] = None"
| "strrchr_dot (c # cs) =
     (case strrchr_dot cs of
        Some s \<Rightarrow> Some s
      | None \<Rightarrow> if c = CHR ''.'' then Some (c # cs) else None)"

definition tolower :: "char \<Rightarrow> char" where
  "tolower c =
     (let n = (of_char c :: nat)
      in if 65 \<le> n \<and> n \<le> 90 then char_of (n + 32) else c)"

definition strcasecmp_eq :: "string \<Rightarrow> string \<Rightarrow> bool" where
  "strcasecmp_eq a b = (map tolower a = map tolower b)"

definition content_type_of :: "string \<Rightarrow> string" where
  "content_type_of path =
     (case strrchr_dot path of
        None \<Rightarrow> ''video/mp4''
      | Some file_ext \<Rightarrow>
          if strcasecmp_eq file_ext ''.mp4'' then ''video/mp4''
          else if strcasecmp_eq file_ext ''.webm'' then ''video/webm''
          else if strcasecmp_eq file_ext ''.mkv'' then ''video/x-matroska''
          else if strcasecmp_eq file_ext ''.avi'' then ''video/x-msvideo''
          else if strcasecmp_eq file_ext ''.mov'' then ''video/quicktime''
          else ''video/mp4'')"

text \<open>
  \<^verbatim>\<open>playback_recording_task_function\<close>. The catalog lookup
  \<^verbatim>\<open>get_recording_metadata_by_id\<close> (db_recordings.c, not available) is the parameter
  \<open>catalog\<close>: \<open>None\<close> when it returns non-zero, the row otherwise. \<open>on_disk p\<close> tells
  whether \<^verbatim>\<open>stat\<close> succeeds on the path. The result is what is sent on the connection
  and the table afterwards. The calls \<^verbatim>\<open>init_playback_sessions\<close> and
  \<^verbatim>\<open>cleanup_inactive_playback_sessions\<close> touch neither.
\<close>

definition playback_recording_task_function ::
  "(nat \<Rightarrow> recording_metadata option) \<Rightarrow> (string \<Rightarrow> bool)
     \<Rightarrow> playback_recording_task option \<Rightarrow> active_request list
     \<Rightarrow> http_output list \<times> active_request list" where
  "playback_recording_task_function catalog on_disk task tbl =
     (case task of
        None \<Rightarrow> ([], tbl)
      | Some t \<Rightarrow>
          (let i = task_id t in
           case connection t of
             None \<Rightarrow> ([], mark_request_inactive i tbl)
           | Some c \<Rightarrow>
               if is_closing c then ([], mark_request_inactive i tbl)
               else
                 (case catalog i of
                    None \<Rightarrow>
                      ([Reply 404 ''{\"error\":\"Recording not found\"}''],
                       mark_request_inactive i tbl)
                  | Some recording \<Rightarrow>
                      if \<not> on_disk (file_path recording)
                      then ([Reply 404 ''{\"error\":\"Recording file not found\"}''],
                            mark_request_inactive i tbl)
                      else ([Serve_file (file_path recording)
                               (content_type_of (file_path recording))],
                            mark_request_inactive i tbl))))"

text \<open>No two active entries of the table carry the same id.\<close>

definition no_duplicate_active :: "active_request list \<Rightarrow> bool" where
  "no_duplicate_active tbl = distinct (map req_id (filter active tbl))"

text \<open>A sequence of calls on the table, each atomic.\<close>

datatype request_op = Mark_active nat | Mark_inactive nat

fun apply_request_op :: "active_request list \<Rightarrow> request_op \<Rightarrow> active_request list" where
  "apply_request_op tbl (Mark_active i) = snd (mark_request_active i tbl)"
| "apply_request_op tbl (Mark_inactive i) = mark_request_inactive i tbl"

section \<open>The MP4 writer registry (declared in mp4_recording.h)\<close>

text \<open>
  A writer is the address of an \<^verbatim>\<open>mp4_writer_t\<close>; \<open>None\<close> is NULL. Of a frame buffer
  the registry reads only the pointer \<^verbatim>\<open>frames\<close>.
\<close>

type_synonym mp4_writer = nat

record frame_buffer =
  frames :: "nat option"

text \<open>
  The calls that the registry makes to functions whose definitions are not available
  (\<^verbatim>\<open>mp4_writer_close\<close>, \<^verbatim>\<open>flush_frame_buffer\<close>, \<^verbatim>\<open>init_frame_buffer\<close>,
  \<^verbatim>\<open>free_frame_buffer\<close>), in the order in which they are made.
\<close>

datatype call =
    Mp4_writer_close mp4_writer
  | Flush_frame_buffer nat mp4_writer
  | Init_frame_buffer string int
  | Free_frame_buffer nat

text \<open>
  The global arrays \<^verbatim>\<open>mp4_writers\<close>, \<^verbatim>\<open>mp4_writer_stream_names\<close> and
  \<^verbatim>\<open>frame_buffers\<close>, each of \<^verbatim>\<open>MAX_STREAMS\<close> entries, and the calls made so far.
\<close>

record recording_state =
  mp4_writers :: "mp4_writer option list"
  mp4_writer_stream_names :: "string list"
  frame_buffers :: "frame_buffer list"
  calls :: "call list"

text \<open>
  What the registry takes from headers and modules that are not available: the three
  constants, the stream manager's lookup (\<^verbatim>\<open>get_stream_by_name\<close> followed by
  \<^verbatim>\<open>get_stream_config\<close>; \<open>None\<close> when either fails), and the effect on the buffer pool
  of \<^verbatim>\<open>init_frame_buffer\<close> and \<^verbatim>\<open>flush_frame_buffer\<close>.
\<close>

record recording_env =
  MAX_STREAMS :: nat
  MAX_STREAM_NAME :: nat
  MAX_PREBUFFER_FRAMES :: int
  get_stream_config :: "string \<Rightarrow> stream_config option"
  init_frame_buffer :: "string \<Rightarrow> int \<Rightarrow> frame_buffer list \<Rightarrow> frame_buffer list"
  flush_frame_buffer :: "nat \<Rightarrow> mp4_writer \<Rightarrow> frame_buffer list \<Rightarrow> frame_buffer list"

text \<open>
  Modelled from the spec: \<^verbatim>\<open>free_frame_buffer\<close> is not available. The spec has the ring
  buffer destroyed on disable: the entry's \<^verbatim>\<open>frames\<close> pointer becomes NULL.
\<close>

definition free_frame_buffer :: "nat \<Rightarrow> frame_buffer list \<Rightarrow> frame_buffer list" where
  "free_frame_buffer idx fbs = fbs[idx := (fbs ! idx)\<lparr> frames := None \<rparr>]"

text \<open>
  The product of two C \<^verbatim>\<open>int\<close>s, as a 32-bit two's complement machine computes it
  (in C the overflow itself is undefined).
\<close>

definition int32 :: "int \<Rightarrow> int" where
  "int32 x = (x + 2 ^ 31) mod 2 ^ 32 - 2 ^ 31"

text \<open>
  The first loop of \<^verbatim>\<open>register_mp4_writer_for_stream\<close>, over the indices in order: it
  stops at the first slot without a writer, or at the first slot whose name is the
  stream's.
\<close>

datatype slot_search = Free_slot nat | Existing_slot nat | No_slot

fun find_register_slot ::
  "mp4_writer option list \<Rightarrow> string list \<Rightarrow> string \<Rightarrow> nat list \<Rightarrow> slot_search" where
  "find_register_slot ws ns local_stream_name [] = No_slot"
| "find_register_slot ws ns local_stream_name (i # is) =
     (if ws ! i = None then Free_slot i
      else if ns ! i \<noteq> [] \<and> ns ! i = local_stream_name then Existing_slot i
      else find_register_slot ws ns local_stream_name is)"

text \<open>The loop that looks for the stream's frame buffer, in both functions.\<close>

fun find_frame_buffer ::
  "frame_buffer list \<Rightarrow> string list \<Rightarrow> string \<Rightarrow> nat list \<Rightarrow> nat option" where
  "find_frame_buffer fbs ns local_stream_name [] = None"
| "find_frame_buffer fbs ns local_stream_name (j # js) =
     (if frames (fbs ! j) \<noteq> None \<and> ns ! j \<noteq> [] \<and> ns ! j = local_stream_name
      then Some j
      else find_frame_buffer fbs ns local_stream_name js)"

text \<open>The loop of \<^verbatim>\<open>get_mp4_writer_for_stream\<close> and \<^verbatim>\<open>unregister_mp4_writer_for_stream\<close>.\<close>

fun find_writer ::
  "mp4_writer option list \<Rightarrow> string list \<Rightarrow> string \<Rightarrow> nat list \<Rightarrow> nat option" where
  "find_writer ws ns local_stream_name [] = None"
| "find_writer ws ns local_stream_name (i # is) =
     (if ws ! i \<noteq> None \<and> ns ! i \<noteq> [] \<and> ns ! i = local_stream_name
      then Some i
      else find_writer ws ns local_stream_name is)"

text \<open>The replace branch: the pre-buffer of the stream is flushed into the new writer.\<close>

definition flush_existing ::
  "recording_env \<Rightarrow> string \<Rightarrow> mp4_writer \<Rightarrow> recording_state \<Rightarrow> recording_state" where
  "flush_existing env local_stream_name writer st =
     (case get_stream_config env local_stream_name of
        None \<Rightarrow> st
      | Some config \<Rightarrow>
          if pre_detection_buffer config > 0 then
            (let capacity = int32 (pre_detection_buffer config * fps config) in
             if capacity > 0 then
               (case find_frame_buffer (frame_buffers st) (mp4_writer_stream_names st)
                       local_stream_name [0..<MAX_STREAMS env] of
                  Some buffer_idx \<Rightarrow>
                    st\<lparr> frame_buffers :=
                          flush_frame_buffer env buffer_idx writer (frame_buffers st),
                        calls := calls st @ [Flush_frame_buffer buffer_idx writer] \<rparr>
                | None \<Rightarrow> st)
             else st)
          else st)"

text \<open>The new-slot branch: the pre-buffer of the stream is created.\<close>

definition init_prebuffer :: "recording_env \<Rightarrow> string \<Rightarrow> recording_state \<Rightarrow> recording_state" where
  "init_prebuffer env local_stream_name st =
     (case get_stream_config env local_stream_name of
        None \<Rightarrow> st
      | Some config \<Rightarrow>
          if pre_detection_buffer config > 0 then
            (let capacity = int32 (pre_detection_buffer config * fps config) in
             if capacity > 0 then
               (let capacity' = (if capacity < MAX_PREBUFFER_FRAMES env then capacity
                                 else MAX_PREBUFFER_FRAMES env)
                in st\<lparr> frame_buffers :=
                          init_frame_buffer env local_stream_name capacity' (frame_buffers st),
                        calls := calls st @ [Init_frame_buffer local_stream_name capacity'] \<rparr>)
             else st)
          else st)"

text \<open>
  \<^verbatim>\<open>register_mp4_writer_for_stream\<close>: the returned status and the state afterwards. The
  name is \<open>None\<close> for a NULL pointer; it is cut to \<^verbatim>\<open>MAX_STREAM_NAME - 1\<close> characters,
  and to 63 when stored.
\<close>

definition register_mp4_writer_for_stream ::
  "recording_env \<Rightarrow> string option \<Rightarrow> mp4_writer option \<Rightarrow> recording_state
     \<Rightarrow> int \<times> recording_state" where
  "register_mp4_writer_for_stream env stream_name writer st =
     (case stream_name of
        None \<Rightarrow> (- 1, st)
      | Some nm \<Rightarrow>
         (case writer of
            None \<Rightarrow> (- 1, st)
          | Some w \<Rightarrow>
             (let local_stream_name = take (MAX_STREAM_NAME env - 1) nm in
              case find_register_slot (mp4_writers st) (mp4_writer_stream_names st)
                     local_stream_name [0..<MAX_STREAMS env] of
                Existing_slot i \<Rightarrow>
                  (let old_writer = mp4_writers st ! i;
                       st1 = st\<lparr> mp4_writers := (mp4_writers st)[i := Some w] \<rparr>;
                       st2 = flush_existing env local_stream_name w st1;
                       st3 = (case old_writer of
                                Some ow \<Rightarrow> st2\<lparr> calls := calls st2 @ [Mp4_writer_close ow] \<rparr>
                              | None \<Rightarrow> st2)
                   in (0, st3))
              | No_slot \<Rightarrow> (- 1, st)
              | Free_slot slot \<Rightarrow>
                  (let st1 = st\<lparr> mp4_writers := (mp4_writers st)[slot := Some w],
                                 mp4_writer_stream_names :=
                                   (mp4_writer_stream_names st)
                                     [slot := take 63 local_stream_name] \<rparr>
                   in (0, init_prebuffer env local_stream_name st1)))))"

definition get_mp4_writer_for_stream ::
  "recording_env \<Rightarrow> string option \<Rightarrow> recording_state \<Rightarrow> mp4_writer option" where
  "get_mp4_writer_for_stream env stream_name st =
     (case stream_name of
        None \<Rightarrow> None
      | Some nm \<Rightarrow>
          if nm = [] then None
          else
            (let local_stream_name = take (MAX_STREAM_NAME env - 1) nm in
             case find_writer (mp4_writers st) (mp4_writer_stream_names st)
                    local_stream_name [0..<MAX_STREAMS env] of
               Some i \<Rightarrow> mp4_writers st ! i
             | None \<Rightarrow> None))"

text \<open>
  \<^verbatim>\<open>unregister_mp4_writer_for_stream\<close>: the slot is cleared first; the search for the
  frame buffer then reads the names as they are after the clearing.
\<close>

definition unregister_mp4_writer_for_stream ::
  "recording_env \<Rightarrow> string option \<Rightarrow> recording_state \<Rightarrow> recording_state" where
  "unregister_mp4_writer_for_stream env stream_name st =
     (case stream_name of
        None \<Rightarrow> st
      | Some nm \<Rightarrow>
          if nm = [] then st
          else
            (let local_stream_name = take (MAX_STREAM_NAME env - 1) nm in
             case find_writer (mp4_writers st) (mp4_writer_stream_names st)
                    local_stream_name [0..<MAX_STREAMS env] of
               None \<Rightarrow> st
             | Some writer_idx \<Rightarrow>
                 (let st1 = st\<lparr> mp4_writers := (mp4_writers st)[writer_idx := None],
                                mp4_writer_stream_names :=
                                  (mp4_writer_stream_names st)[writer_idx := []] \<rparr>
                  in case find_frame_buffer (frame_buffers st1) (mp4_writer_stream_names st1)
                            local_stream_name [0..<MAX_STREAMS env] of
                       Some buffer_idx \<Rightarrow>
                         st1\<lparr> frame_buffers := free_frame_buffer buffer_idx (frame_buffers st1),
                              calls := calls st1 @ [Free_frame_buffer buffer_idx] \<rparr>
                     | None \<Rightarrow> st1)))"

text \<open>
  The arrays have \<^verbatim>\<open>MAX_STREAMS\<close> entries each, and the external functions keep the
  size of the buffer pool.
\<close>

definition arrays_ok :: "recording_env \<Rightarrow> recording_state \<Rightarrow> bool" where
  "arrays_ok env st =
     (length (mp4_writers st) = MAX_STREAMS env
      \<and> length (mp4_writer_stream_names st) = MAX_STREAMS env
      \<and> length (frame_buffers st) = MAX_STREAMS env)"

text \<open>The slots of the registry that hold a writer under the given stream name.\<close>

definition writers_of :: "recording_state \<Rightarrow> string \<Rightarrow> mp4_writer list" where
  "writers_of st n =
     concat (map (\<lambda>(w, m). case w of Some x \<Rightarrow> if m = n then [x] else [] | None \<Rightarrow> [])
               (zip (mp4_writers st) (mp4_writer_stream_names st)))"

text \<open>
  An environment with four slots whose stream manager knows every stream with the given
  pre-buffer seconds and frame rate, and a pool on which creating and flushing a buffer
  change nothing that the registry reads; the registry at start-up.
\<close>

definition test_env :: "int \<Rightarrow> int \<Rightarrow> recording_env" where
  "test_env p f =
     \<lparr> MAX_STREAMS = 4, MAX_STREAM_NAME = 64, MAX_PREBUFFER_FRAMES = 300,
       get_stream_config =
         (\<lambda>n. Some (cam_config\<lparr> name := n, pre_detection_buffer := p, fps := f \<rparr>)),
       init_frame_buffer = (\<lambda>n c fbs. fbs),
       flush_frame_buffer = (\<lambda>j w fbs. fbs) \<rparr>"

definition empty_registry :: recording_state where
  "empty_registry =
     \<lparr> mp4_writers = replicate 4 None, mp4_writer_stream_names = replicate 4 [],
       frame_buffers = replicate 4 \<lparr> frames = None \<rparr>, calls = [] \<rparr>"

section \<open>The timeline manifest (api_handlers_timeline.c)\<close>

text \<open>
  \<^verbatim>\<open>timeline_segment_t\<close>; times are \<^verbatim>\<open>time_t\<close> seconds. \<^verbatim>\<open>difftime\<close> of two such
  times is their difference, an integer that a double represents exactly.
\<close>

record timeline_segment =
  seg_id :: nat
  seg_stream_name :: string
  seg_file_path :: string
  seg_start_time :: int
  seg_end_time :: int
  seg_size_bytes :: int
  seg_has_detection :: bool

definition MAX_MANIFEST_SEGMENTS :: nat where
  "MAX_MANIFEST_SEGMENTS = 100"

text \<open>Decimal output of \<^verbatim>\<open>%d\<close> and \<^verbatim>\<open>%ld\<close>, and of \<^verbatim>\<open>%.6f\<close> for a whole number.\<close>

definition digit_char :: "nat \<Rightarrow> char" where
  "digit_char d = ''0123456789'' ! d"

function show_nat :: "nat \<Rightarrow> string" where
  "show_nat n = (if n < 10 then [digit_char n] else show_nat (n div 10) @ [digit_char (n mod 10)])"
  by pat_completeness auto
termination
  by (relation "measure id") auto

declare show_nat.simps [simp del]

definition show_int :: "int \<Rightarrow> string" where
  "show_int i = (if i < 0 then CHR ''-'' # show_nat (nat (- i)) else show_nat (nat i))"

definition show_f6 :: "int \<Rightarrow> string" where
  "show_f6 i = show_int i @ ''.000000''"

text \<open>
  What \<^verbatim>\<open>create_timeline_manifest\<close> takes from its surroundings: the configured storage
  path, the clock, whether \<^verbatim>\<open>fopen\<close> succeeds, and \<^verbatim>\<open>MAX_PATH_LENGTH\<close> (core/config.h,
  not available).
\<close>

record manifest_env =
  storage_path :: string
  now :: int
  fopen_ok :: bool
  MAX_PATH_LENGTH :: nat

text \<open>The loop that finds the longest duration among the segments.\<close>

fun max_duration_loop :: "timeline_segment list \<Rightarrow> int \<Rightarrow> int" where
  "max_duration_loop [] max_duration = max_duration"
| "max_duration_loop (s # ss) max_duration =
     (let duration = seg_end_time s - seg_start_time s
      in max_duration_loop ss (if duration > max_duration then duration else max_duration))"

text \<open>
  \<^verbatim>\<open>create_timeline_manifest\<close>. The array and its count are the list (an empty list for a
  count that is not positive). The result is the status and, when a file is written, the
  path copied to \<^verbatim>\<open>manifest_path\<close> with the lines of the file. The index
  \<^verbatim>\<open>start_segment_index\<close> that the function also computes is not used in what it writes.
\<close>

definition create_timeline_manifest ::
  "manifest_env \<Rightarrow> timeline_segment list \<Rightarrow> int \<Rightarrow> int \<times> (string \<times> string list) option" where
  "create_timeline_manifest env segments start_time =
     (if segments = [] then (- 1, None)
      else
        (let segment_count = min (length segments) MAX_MANIFEST_SEGMENTS;
             temp_dir = take (MAX_PATH_LENGTH env - 1) (storage_path env @ ''/timeline_manifests'');
             manifest_filename = take (MAX_PATH_LENGTH env - 1)
               (temp_dir @ ''/manifest_'' @ show_int (now env) @ ''_''
                  @ seg_stream_name (hd segments) @ ''_'' @ show_int start_time @ ''.m3u8'')
         in if \<not> fopen_ok env then (- 1, None)
            else
              (let max_duration = max_duration_loop (take segment_count segments) 0;
                   target_duration = max_duration + 1
               in (0, Some (take (MAX_PATH_LENGTH env - 1) manifest_filename,
                     [''#EXTM3U'',
                      ''#EXT-X-VERSION:3'',
                      ''#EXT-X-MEDIA-SEQUENCE:0'',
                      ''#EXT-X-ALLOW-CACHE:YES'',
                      ''#EXT-X-TARGETDURATION:'' @ show_int target_duration,
                      ''#EXTINF:'' @ show_f6 max_duration @ '','',
                      ''/api/timeline/play?stream='' @ seg_stream_name (hd segments)
                         @ ''&start='' @ show_int start_time,
                      ''#EXT-X-ENDLIST''])))))"

text \<open>The segment descriptors of a playlist: its \<^verbatim>\<open>#EXTINF\<close> lines.\<close>

definition extinf_count :: "string list \<Rightarrow> nat" where
  "extinf_count ls = length (filter (\<lambda>l. take 8 l = ''#EXTINF:'') ls)"

definition two_segments :: "timeline_segment list" where
  "two_segments =
     [\<lparr> seg_id = 1, seg_stream_name = ''cam'', seg_file_path = ''/rec/cam/1.mp4'',
        seg_start_time = 1000, seg_end_time = 1060, seg_size_bytes = 5000,
        seg_has_detection = False \<rparr>,
      \<lparr> seg_id = 2, seg_stream_name = ''cam'', seg_file_path = ''/rec/cam/2.mp4'',
        seg_start_time = 1060, seg_end_time = 1150, seg_size_bytes = 7000,
        seg_has_detection = False \<rparr>]"

definition manifest_env0 :: manifest_env where
  "manifest_env0 =
     \<lparr> storage_path = ''/var/lib/lightnvr'', now = 2000, fopen_ok = True,
       MAX_PATH_LENGTH = 256 \<rparr>"

section \<open>Time parameters of the timeline handlers (api_handlers_timeline.c)\<close>

text \<open>The fields of \<^verbatim>\<open>struct tm\<close> that the handler and \<^verbatim>\<open>mktime\<close> use.\<close>

record tm =
  tm_sec :: int
  tm_min :: int
  tm_hour :: int
  tm_mday :: int
  tm_mon :: int
  tm_year :: int
  tm_isdst :: int

definition tm_zero :: tm where
  "tm_zero = \<lparr> tm_sec = 0, tm_min = 0, tm_hour = 0, tm_mday = 0, tm_mon = 0,
               tm_year = 0, tm_isdst = 0 \<rparr>"

text \<open>
  The loop that replaces each \<^verbatim>\<open>%3A\<close> by a colon: after a replacement the search
  goes on from the colon.
\<close>

function replace_3A :: "string \<Rightarrow> string" where
  "replace_3A s =
     (if s = [] then []
      else if take 3 s = ''%3A'' then CHR '':'' # replace_3A (drop 3 s)
      else hd s # replace_3A (tl s))"
  by pat_completeness auto
termination
  by (relation "measure length") auto

declare replace_3A.simps [simp del]

text \<open>
  Modelled after the C library (\<^verbatim>\<open>strptime\<close> of glibc), for the conversions that the
  handler's formats use. \<open>get_number\<close> skips white space, wants a digit, and reads at most
  \<open>n\<close> digits while ten times the value does not exceed the upper bound; the value must lie
  between the bounds.
\<close>

definition is_digit :: "char \<Rightarrow> bool" where
  "is_digit c = (48 \<le> (of_char c :: nat) \<and> (of_char c :: nat) \<le> 57)"

definition digit_val :: "char \<Rightarrow> nat" where
  "digit_val c = of_char c - 48"

definition isspace :: "char \<Rightarrow> bool" where
  "isspace c = ((of_char c :: nat) = 32 \<or> (9 \<le> (of_char c :: nat) \<and> (of_char c :: nat) \<le> 13))"

fun get_digits :: "nat \<Rightarrow> nat \<Rightarrow> nat \<Rightarrow> string \<Rightarrow> nat \<times> string" where
  "get_digits 0 to val rp = (val, rp)"
| "get_digits (Suc n) to val [] = (val, [])"
| "get_digits (Suc n) to val (c # rp) =
     (if val * 10 \<le> to \<and> is_digit c then get_digits n to (val * 10 + digit_val c) rp
      else (val, c # rp))"

definition get_number :: "nat \<Rightarrow> nat \<Rightarrow> nat \<Rightarrow> string \<Rightarrow> (nat \<times> string) option" where
  "get_number from to n rp0 =
     (case dropWhile isspace rp0 of
        [] \<Rightarrow> None
      | c # rp \<Rightarrow>
          if \<not> is_digit c then None
          else (case get_digits (n - 1) to (digit_val c) rp of
                  (val, rest) \<Rightarrow> if val < from \<or> val > to then None else Some (val, rest)))"

definition strptime_conv :: "char \<Rightarrow> string \<Rightarrow> tm \<Rightarrow> (string \<times> tm) option" where
  "strptime_conv d rp tm =
     (if d = CHR ''Y'' then
        map_option (\<lambda>(v, r). (r, tm\<lparr> tm_year := int v - 1900 \<rparr>)) (get_number 0 9999 4 rp)
      else if d = CHR ''m'' then
        map_option (\<lambda>(v, r). (r, tm\<lparr> tm_mon := int v - 1 \<rparr>)) (get_number 1 12 2 rp)
      else if d = CHR ''d'' then
        map_option (\<lambda>(v, r). (r, tm\<lparr> tm_mday := int v \<rparr>)) (get_number 1 31 2 rp)
      else if d = CHR ''H'' then
        map_option (\<lambda>(v, r). (r, tm\<lparr> tm_hour := int v \<rparr>)) (get_number 0 23 2 rp)
      else if d = CHR ''M'' then
        map_option (\<lambda>(v, r). (r, tm\<lparr> tm_min := int v \<rparr>)) (get_number 0 59 2 rp)
      else if d = CHR ''S'' then
        map_option (\<lambda>(v, r). (r, tm\<lparr> tm_sec := int v \<rparr>)) (get_number 0 61 2 rp)
      else None)"

text \<open>
  \<open>strptime rp fmt tm\<close> is \<open>None\<close> where the C function returns NULL. Input left over
  after the format is not an error.
\<close>

fun strptime :: "string \<Rightarrow> string \<Rightarrow> tm \<Rightarrow> tm option" where
  "strptime rp [] tm = Some tm"
| "strptime rp (c # fmt) tm =
     (if c = CHR ''%'' then
        (case fmt of
           [] \<Rightarrow> None
         | d # fmt' \<Rightarrow>
             (case strptime_conv d rp tm of
                None \<Rightarrow> None
              | Some p \<Rightarrow> strptime (fst p) fmt' (snd p)))
      else
        (case rp of
           [] \<Rightarrow> None
         | r # rp' \<Rightarrow> if r = c then strptime rp' fmt tm else None))"

text \<open>
  Modelled after the C library: \<^verbatim>\<open>mktime\<close> reads the fields as local time. The
  server's zone is taken at a fixed offset of \<open>gmtoff\<close> seconds east of UTC, so the result
  is the reading of the fields as UTC (\<open>timegm\<close>, by the days of the civil calendar)
  minus the offset.
\<close>

definition days_from_civil :: "int \<Rightarrow> int \<Rightarrow> int \<Rightarrow> int" where
  "days_from_civil y m d =
     (let y' = (if m \<le> 2 then y - 1 else y);
          era = y' div 400;
          yoe = y' - era * 400;
          doy = (153 * (if m > 2 then m - 3 else m + 9) + 2) div 5 + d - 1;
          doe = yoe * 365 + yoe div 4 - yoe div 100 + doy
      in era * 146097 + doe - 719468)"

definition timegm :: "tm \<Rightarrow> int" where
  "timegm t =
     days_from_civil (tm_year t + 1900) (tm_mon t + 1) (tm_mday t) * 86400
       + tm_hour t * 3600 + tm_min t * 60 + tm_sec t"

definition mktime :: "int \<Rightarrow> tm \<Rightarrow> int" where
  "mktime gmtoff t = timegm t - gmtoff"

text \<open>
  The chain of \<^verbatim>\<open>strptime\<close> attempts, each on the zeroed \<^verbatim>\<open>struct tm\<close> (what a failed
  attempt leaves in the structure is overwritten by the attempt that succeeds).
\<close>

fun try_formats :: "string \<Rightarrow> string list \<Rightarrow> tm option" where
  "try_formats rp [] = None"
| "try_formats rp (fmt # fmts) =
     (case strptime rp fmt tm_zero of
        Some t \<Rightarrow> Some t
      | None \<Rightarrow> try_formats rp fmts)"

text \<open>
  The block of \<^verbatim>\<open>mg_handle_get_timeline_segments\<close> (and of the manifest handler) that
  turns a non-empty time parameter into a \<^verbatim>\<open>time_t\<close>; \<open>None\<close> when no format matches
  and the variable keeps its initial 0. The triple is the time of day that the date-only
  format gets: 00:00:00 for start, 23:59:59 for end.
\<close>

definition parse_time_string :: "int \<Rightarrow> int \<times> int \<times> int \<Rightarrow> string \<Rightarrow> int option" where
  "parse_time_string gmtoff day_time time_str =
     (let decoded = replace_3A (take 63 time_str) in
      case try_formats decoded
             [''%Y-%m-%dT%H:%M:%S'', ''%Y-%m-%dT%H:%M:%S.000Z'',
              ''%Y-%m-%dT%H:%M:%S.000'', ''%Y-%m-%dT%H:%M:%SZ''] of
        Some t \<Rightarrow> Some (mktime gmtoff (t\<lparr> tm_isdst := - 1 \<rparr>))
      | None \<Rightarrow>
          (case strptime decoded ''%Y-%m-%d'' tm_zero of
             Some t \<Rightarrow>
               (case day_time of
                  (h, m, s) \<Rightarrow>
                    Some (mktime gmtoff
                            (t\<lparr> tm_hour := h, tm_min := m, tm_sec := s, tm_isdst := - 1 \<rparr>)))
           | None \<Rightarrow> None))"

record timeline_env =
  tz_gmtoff :: int
  time_now :: int

text \<open>
  The range that \<^verbatim>\<open>mg_handle_get_timeline_segments\<close> passes to
  \<^verbatim>\<open>get_timeline_segments\<close>, from the \<^verbatim>\<open>start\<close> and \<^verbatim>\<open>end\<close> parameters of the query.
\<close>

definition timeline_query_range :: "timeline_env \<Rightarrow> string \<Rightarrow> string \<Rightarrow> int \<times> int" where
  "timeline_query_range env start_time_str end_time_str =
     (let start_time =
            (if start_time_str \<noteq> [] then
               (case parse_time_string (tz_gmtoff env) (0, 0, 0) start_time_str of
                  Some t \<Rightarrow> t | None \<Rightarrow> 0)
             else time_now env - 24 * 60 * 60);
          end_time =
            (if end_time_str \<noteq> [] then
               (case parse_time_string (tz_gmtoff env) (23, 59, 59) end_time_str of
                  Some t \<Rightarrow> t | None \<Rightarrow> 0)
             else time_now env)
      in (start_time, end_time))"

text \<open>A wall-clock time written as \<^verbatim>\<open>YYYY-MM-DDTHH:MM:SS\<close>.\<close>

definition two_digits :: "nat \<Rightarrow> string" where
  "two_digits n = [digit_char (n div 10), digit_char (n mod 10)]"

definition four_digits :: "nat \<Rightarrow> string" where
  "four_digits n =
     [digit_char (n div 1000), digit_char (n div 100 mod 10),
      digit_char (n div 10 mod 10), digit_char (n mod 10)]"

definition iso_string :: "nat \<Rightarrow> nat \<Rightarrow> nat \<Rightarrow> nat \<Rightarrow> nat \<Rightarrow> nat \<Rightarrow> string" where
  "iso_string y m d h mi s =
     four_digits y @ ''-'' @ two_digits m @ ''-'' @ two_digits d @ ''T''
       @ two_digits h @ '':'' @ two_digits mi @ '':'' @ two_digits s"

definition utc_seconds :: "nat \<Rightarrow> nat \<Rightarrow> nat \<Rightarrow> nat \<Rightarrow> nat \<Rightarrow> nat \<Rightarrow> int" where
  "utc_seconds y m d h mi s =
     days_from_civil (int y) (int m) (int d) * 86400 + int h * 3600 + int mi * 60 + int s"

section \<open>Properties of the streams table\<close>

lemma find_unique_name:
  assumes "distinct (map col_name t)"
  shows "(find (\<lambda>r. col_name r = n) t = Some r) = (r \<in> set t \<and> col_name r = n)"
  using assms
proof (induction t)
  case Nil
  then show ?case by simp
next
  case (Cons a t)
  then show ?case by (cases "col_name a = n") (auto simp: image_iff)
qed

lemma find_none_name:
  "(find (\<lambda>r. col_name r = n) t = None) = (\<forall>r \<in> set t. col_name r \<noteq> n)"
  by (induction t) auto

text \<open>
  C10. \<^verbatim>\<open>is_stream_eligible_for_live_streaming\<close> returns -1 only when the database handle
  is missing or the statement cannot be prepared; on a working database whose names are
  unique it returns 1 exactly when a row with the name exists with both \<^verbatim>\<open>enabled\<close> and
  \<^verbatim>\<open>streaming_enabled\<close> set, and 0 (not an error) when no row has the name.
\<close>

theorem eligible_for_live_streaming_iff:
  "(is_stream_eligible_for_live_streaming f db (Some n) = - 1
      \<longrightarrow> db = None \<or> \<not> prepare_ok f Select_eligible)
   \<and> (db = Some t \<and> distinct (map col_name t)
        \<and> prepare_ok f Select_eligible \<and> step_ok f Select_eligible
      \<longrightarrow> ((is_stream_eligible_for_live_streaming f db (Some n) = 1)
             = (\<exists>r \<in> set t. col_name r = n \<and> col_enabled r \<noteq> 0
                    \<and> col_streaming_enabled r \<noteq> 0))
          \<and> ((\<forall>r \<in> set t. col_name r \<noteq> n)
               \<longrightarrow> is_stream_eligible_for_live_streaming f db (Some n) = 0)
          \<and> is_stream_eligible_for_live_streaming f db (Some n) \<in> {0, 1})"
proof (intro conjI impI)
  assume "is_stream_eligible_for_live_streaming f db (Some n) = - 1"
  then show "db = None \<or> \<not> prepare_ok f Select_eligible"
    by (auto simp: is_stream_eligible_for_live_streaming_def Let_def
             split: option.splits if_splits)
next
  assume a: "db = Some t \<and> distinct (map col_name t)
        \<and> prepare_ok f Select_eligible \<and> step_ok f Select_eligible"
  then have d: "distinct (map col_name t)" by simp
  show "(is_stream_eligible_for_live_streaming f db (Some n) = 1)
             = (\<exists>r \<in> set t. col_name r = n \<and> col_enabled r \<noteq> 0
                    \<and> col_streaming_enabled r \<noteq> 0)"
  proof (cases "find (\<lambda>r. col_name r = n) t")
    case None
    then have "\<forall>r \<in> set t. col_name r \<noteq> n"
      by (simp add: find_none_name)
    with a None show ?thesis
      by (simp add: is_stream_eligible_for_live_streaming_def)
  next
    case (Some r)
    then have r: "r \<in> set t" "col_name r = n"
      using find_unique_name [OF d] by auto
    have u: "x = r" if "x \<in> set t" "col_name x = n" for x
    proof -
      from that have "find (\<lambda>r. col_name r = n) t = Some x"
        using find_unique_name [OF d] by blast
      with Some show ?thesis by simp
    qed
    have v: "is_stream_eligible_for_live_streaming f db (Some n)
               = (if col_enabled r \<noteq> 0 \<and> col_streaming_enabled r \<noteq> 0 then 1 else 0)"
      using a Some by (simp add: is_stream_eligible_for_live_streaming_def)
    show ?thesis
    proof
      assume "is_stream_eligible_for_live_streaming f db (Some n) = 1"
      with v have "col_enabled r \<noteq> 0 \<and> col_streaming_enabled r \<noteq> 0"
        by (simp split: if_splits)
      with r show "\<exists>r \<in> set t. col_name r = n \<and> col_enabled r \<noteq> 0
                    \<and> col_streaming_enabled r \<noteq> 0"
        by blast
    next
      assume "\<exists>r \<in> set t. col_name r = n \<and> col_enabled r \<noteq> 0
                    \<and> col_streaming_enabled r \<noteq> 0"
      then obtain x where x: "x \<in> set t" "col_name x = n"
        "col_enabled x \<noteq> 0" "col_streaming_enabled x \<noteq> 0"
        by blast
      from u [OF x(1,2)] x(3,4) v
      show "is_stream_eligible_for_live_streaming f db (Some n) = 1"
        by simp
    qed
  qed
  show "(\<forall>r \<in> set t. col_name r \<noteq> n)
               \<Longrightarrow> is_stream_eligible_for_live_streaming f db (Some n) = 0"
    using a by (simp add: is_stream_eligible_for_live_streaming_def
                  find_none_name [symmetric])
  show "is_stream_eligible_for_live_streaming f db (Some n) \<in> {0, 1}"
    using a by (auto simp: is_stream_eligible_for_live_streaming_def Let_def
                  split: option.splits)
qed

theorem eligible_for_live_streaming_witness:
  "is_stream_eligible_for_live_streaming no_faults
      (Some [old_row 1 ''door'' 1, insert_row 2 cam_config]) (Some ''cam'') = 1
   \<and> is_stream_eligible_for_live_streaming no_faults
      (Some [old_row 1 ''door'' 1, insert_row 2 cam_config]) (Some ''yard'') = 0
   \<and> is_stream_eligible_for_live_streaming no_faults None (Some ''cam'') = - 1"
proof -
  let ?t = "[old_row 1 ''door'' 1, insert_row 2 cam_config]"
  have d: "distinct (map col_name ?t)"
    by (simp add: old_row_def insert_row_def cam_config_def)
  have ok: "prepare_ok no_faults Select_eligible \<and> step_ok no_faults Select_eligible"
    by (simp add: no_faults_def)
  have ex: "\<exists>r \<in> set ?t. col_name r = ''cam'' \<and> col_enabled r \<noteq> 0
              \<and> col_streaming_enabled r \<noteq> 0"
    by (simp add: old_row_def insert_row_def cam_config_def flag_def)
  have nx: "\<forall>r \<in> set ?t. col_name r \<noteq> ''yard''"
    by (simp add: old_row_def insert_row_def cam_config_def)
  have m: "is_stream_eligible_for_live_streaming no_faults None (Some ''cam'') = - 1"
    by (simp add: is_stream_eligible_for_live_streaming_def)
  from eligible_for_live_streaming_iff [of no_faults "Some ?t" "''cam''" ?t] d ok ex
  have one: "is_stream_eligible_for_live_streaming no_faults (Some ?t) (Some ''cam'') = 1"
    by blast
  from eligible_for_live_streaming_iff [of no_faults "Some ?t" "''yard''" ?t] d ok nx
  have zero: "is_stream_eligible_for_live_streaming no_faults (Some ?t) (Some ''yard'') = 0"
    by blast
  from one zero m show ?thesis by blast
qed

lemma fold_max_ge: "(a::nat) \<le> fold max xs a"
proof (induction xs arbitrary: a)
  case Nil
  then show ?case by simp
next
  case (Cons x xs)
  have "a \<le> max x a" by simp
  also have "\<dots> \<le> fold max xs (max x a)" by (rule Cons.IH)
  finally show ?case by simp
qed

lemma fold_max_mem: "(x::nat) \<in> set xs \<Longrightarrow> x \<le> fold max xs a"
proof (induction xs arbitrary: a)
  case Nil
  then show ?case by simp
next
  case (Cons y ys)
  show ?case
  proof (cases "x = y")
    case True
    have "x \<le> max y a" using True by simp
    also have "\<dots> \<le> fold max ys (max y a)" by (rule fold_max_ge)
    finally show ?thesis by simp
  next
    case False
    with Cons.prems have "x \<in> set ys" by simp
    then show ?thesis using Cons.IH by simp
  qed
qed

lemma last_insert_rowid_fresh: "last_insert_rowid t \<notin> row_id ` set t"
proof
  assume "last_insert_rowid t \<in> row_id ` set t"
  then have "last_insert_rowid t \<in> set (map row_id t)" by simp
  then have "last_insert_rowid t \<le> fold max (map row_id t) 0" by (rule fold_max_mem)
  then show False by (simp add: last_insert_rowid_def)
qed

lemma find_disabled_unique:
  assumes "distinct (map col_name t)" "r \<in> set t" "col_name r = n"
  shows "find (\<lambda>x. col_name x = n \<and> col_enabled x = 0) t
           = (if col_enabled r = 0 then Some r else None)"
  using assms
proof (induction t)
  case Nil
  then show ?case by simp
next
  case (Cons a t)
  show ?case
  proof (cases "a = r")
    case True
    with Cons.prems have "\<forall>x \<in> set t. col_name x \<noteq> n" by (auto simp: image_iff)
    then have "find (\<lambda>x. col_name x = n \<and> col_enabled x = 0) t = None"
      by (induction t) auto
    with True Cons.prems(3) show ?thesis by simp
  next
    case False
    with Cons.prems have "r \<in> set t" "col_name a \<noteq> n" by (auto simp: image_iff)
    with Cons show ?thesis by simp
  qed
qed

lemma find_disabled_absent:
  "\<forall>r \<in> set t. col_name r \<noteq> n
     \<Longrightarrow> find (\<lambda>x. col_name x = n \<and> col_enabled x = 0) t = None"
  by (induction t) auto

lemma map_update_by_id:
  assumes "distinct (map row_id t)" "r \<in> set t"
  shows "map (\<lambda>x. if row_id x = row_id r then g x else x) t
           = map (\<lambda>x. if x = r then g r else x) t"
proof (rule map_cong [OF refl])
  fix x assume "x \<in> set t"
  with assms have "(row_id x = row_id r) = (x = r)"
    by (auto simp: distinct_map inj_on_def)
  then show "(if row_id x = row_id r then g x else x) = (if x = r then g r else x)"
    by auto
qed

text \<open>
  C2, as stated, fails: when a row with the name exists and is enabled, no field is
  replaced and the id is not returned; the INSERT violates the uniqueness of the name and
  \<^verbatim>\<open>add_stream_config\<close> returns 0.
\<close>

theorem add_enabled_duplicate_counterexample:
  "add_stream_config no_faults (Some [old_row 1 ''cam'' 1]) (Some cam_config)
     = (0, Some [old_row 1 ''cam'' 1])
   \<and> add_stream_config no_faults (Some [old_row 1 ''cam'' 1]) (Some cam_config)
     \<noteq> (1, Some [update_row (old_row 1 ''cam'' 1) cam_config])"
  by (simp add: add_stream_config_def no_faults_def old_row_def cam_config_def name_taken_def)

text \<open>
  C2, amended. On a working database with unique names and ids: when a row with the name
  exists and is disabled, every column but the id and the name is replaced with the
  configuration's values (so \<^verbatim>\<open>enabled\<close> becomes the configuration's flag) and the
  row's id is returned; when a row with the name exists and is enabled, 0 is returned and
  the table is unchanged; when no row has the name, a row with a fresh positive id is
  inserted and that id is returned.
\<close>

theorem add_stream_config_cases:
  assumes names: "distinct (map col_name t)"
    and ids: "distinct (map row_id t)"
    and ok: "\<forall>s. prepare_ok f s \<and> step_ok f s"
  shows "(\<forall>r \<in> set t. col_name r = name c \<and> col_enabled r = 0 \<longrightarrow>
            add_stream_config f (Some t) (Some c)
              = (row_id r, Some (map (\<lambda>x. if x = r then update_row r c else x) t)))
       \<and> (\<forall>r \<in> set t. col_name r = name c \<and> col_enabled r \<noteq> 0 \<longrightarrow>
            add_stream_config f (Some t) (Some c) = (0, Some t))
       \<and> ((\<forall>r \<in> set t. col_name r \<noteq> name c) \<longrightarrow>
            add_stream_config f (Some t) (Some c)
              = (last_insert_rowid t, Some (t @ [insert_row (last_insert_rowid t) c]))
            \<and> last_insert_rowid t \<notin> row_id ` set t \<and> 0 < last_insert_rowid t)"
proof (intro conjI ballI impI)
  fix r assume r: "r \<in> set t" and h: "col_name r = name c \<and> col_enabled r = 0"
  then have "find (\<lambda>x. col_name x = name c \<and> col_enabled x = 0) t = Some r"
    using find_disabled_unique [OF names r] by simp
  then have "add_stream_config f (Some t) (Some c)
      = (row_id r, Some (map (\<lambda>x. if row_id x = row_id r then update_row x c else x) t))"
    using ok by (simp add: add_stream_config_def Let_def)
  then show "add_stream_config f (Some t) (Some c)
      = (row_id r, Some (map (\<lambda>x. if x = r then update_row r c else x) t))"
    using map_update_by_id [OF ids r, of "\<lambda>x. update_row x c"] by simp
next
  fix r assume r: "r \<in> set t" and h: "col_name r = name c \<and> col_enabled r \<noteq> 0"
  then have "find (\<lambda>x. col_name x = name c \<and> col_enabled x = 0) t = None"
    using find_disabled_unique [OF names r] by simp
  moreover have "name_taken t (name c)"
    using r h by (auto simp: name_taken_def)
  ultimately show "add_stream_config f (Some t) (Some c) = (0, Some t)"
    using ok by (simp add: add_stream_config_def Let_def)
next
  assume n: "\<forall>r \<in> set t. col_name r \<noteq> name c"
  then have "find (\<lambda>x. col_name x = name c \<and> col_enabled x = 0) t = None"
    by (rule find_disabled_absent)
  moreover have "\<not> name_taken t (name c)"
    using n by (simp add: name_taken_def)
  ultimately show "add_stream_config f (Some t) (Some c)
      = (last_insert_rowid t, Some (t @ [insert_row (last_insert_rowid t) c]))"
    using ok by (simp add: add_stream_config_def Let_def)
next
  show "last_insert_rowid t \<notin> row_id ` set t" by (rule last_insert_rowid_fresh)
next
  show "0 < last_insert_rowid t" by (simp add: last_insert_rowid_def)
qed

text \<open>The three cases of C2 (amended) at concrete tables.\<close>

theorem add_stream_config_cases_witness:
  "add_stream_config no_faults (Some [old_row 1 ''cam'' 0, old_row 2 ''door'' 1])
       (Some cam_config)
     = (1, Some [update_row (old_row 1 ''cam'' 0) cam_config, old_row 2 ''door'' 1])
   \<and> col_enabled (update_row (old_row 1 ''cam'' 0) cam_config) = 1
   \<and> add_stream_config no_faults (Some [old_row 1 ''cam'' 1, old_row 2 ''door'' 1])
       (Some cam_config)
     = (0, Some [old_row 1 ''cam'' 1, old_row 2 ''door'' 1])
   \<and> add_stream_config no_faults (Some [old_row 2 ''door'' 1]) (Some cam_config)
     = (3, Some [old_row 2 ''door'' 1, insert_row 3 cam_config])"
proof -
  let ?a = "old_row 1 ''cam'' 0" and ?b = "old_row 2 ''door'' 1"
    and ?e = "old_row 1 ''cam'' 1"
  have ok: "\<forall>s. prepare_ok no_faults s \<and> step_ok no_faults s"
    by (simp add: no_faults_def)
  have ne: "?b \<noteq> ?a" by (simp add: old_row_def)
  have 1: "add_stream_config no_faults (Some [?a, ?b]) (Some cam_config)
     = (1, Some [update_row ?a cam_config, ?b])"
    using add_stream_config_cases [of "[?a, ?b]" no_faults cam_config] ok ne
    by (simp add: old_row_def cam_config_def)
  have 2: "add_stream_config no_faults (Some [?e, ?b]) (Some cam_config)
     = (0, Some [?e, ?b])"
    using add_stream_config_cases [of "[?e, ?b]" no_faults cam_config] ok
    by (simp add: old_row_def cam_config_def)
  have 3: "add_stream_config no_faults (Some [?b]) (Some cam_config)
     = (3, Some [?b, insert_row 3 cam_config])"
    using add_stream_config_cases [of "[?b]" no_faults cam_config] ok
    by (simp add: old_row_def cam_config_def last_insert_rowid_def)
  have 4: "col_enabled (update_row ?a cam_config) = 1"
    by (simp add: update_row_def cam_config_def flag_def)
  from 1 2 3 4 show ?thesis by simp
qed

section \<open>Properties of the playback request table\<close>

lemma is_request_active_iff:
  "is_request_active i tbl = (i \<in> set (map req_id (filter active tbl)))"
  by (induction tbl) auto

lemma take_free_slot_ids:
  "set (map req_id (filter active (snd (take_free_slot i tbl))))
     \<subseteq> insert i (set (map req_id (filter active tbl)))"
proof (induction tbl)
  case Nil
  then show ?case by simp
next
  case (Cons e es)
  obtain b es' where r: "take_free_slot i es = (b, es')"
    by (cases "take_free_slot i es")
  with Cons.IH have "set (map req_id (filter active es'))
     \<subseteq> insert i (set (map req_id (filter active es)))"
    by simp
  with r show ?case by (cases "active e") auto
qed

lemma take_free_slot_distinct:
  assumes "distinct (map req_id (filter active tbl))"
    and "i \<notin> set (map req_id (filter active tbl))"
  shows "distinct (map req_id (filter active (snd (take_free_slot i tbl))))"
  using assms
proof (induction tbl)
  case Nil
  then show ?case by simp
next
  case (Cons e es)
  show ?case
  proof (cases "active e")
    case False
    with Cons.prems show ?thesis by simp
  next
    case True
    obtain b es' where r: "take_free_slot i es = (b, es')"
      by (cases "take_free_slot i es")
    from True Cons.prems have d: "distinct (map req_id (filter active es))"
      and n: "i \<notin> set (map req_id (filter active es))"
      and e: "req_id e \<notin> set (map req_id (filter active es))" "req_id e \<noteq> i"
      by auto
    from e take_free_slot_ids [of i es] r
    have "req_id e \<notin> set (map req_id (filter active es'))"
      by auto
    moreover from Cons.IH [OF d n] r
    have "distinct (map req_id (filter active es'))"
      by simp
    ultimately show ?thesis using True r by simp
  qed
qed

lemma mark_request_inactive_ids:
  "map req_id (filter active (mark_request_inactive i tbl))
     = remove1 i (map req_id (filter active tbl))"
  by (induction tbl) auto

lemma mark_request_active_keeps:
  "no_duplicate_active tbl \<Longrightarrow> no_duplicate_active (snd (mark_request_active i tbl))"
  by (simp add: no_duplicate_active_def mark_request_active_def is_request_active_iff
        take_free_slot_distinct)

lemma mark_request_inactive_keeps:
  "no_duplicate_active tbl \<Longrightarrow> no_duplicate_active (mark_request_inactive i tbl)"
  by (simp add: no_duplicate_active_def mark_request_inactive_ids)

lemma mark_request_inactive_clears:
  "no_duplicate_active tbl \<Longrightarrow> \<not> is_request_active i (mark_request_inactive i tbl)"
  by (simp add: no_duplicate_active_def is_request_active_iff mark_request_inactive_ids)

lemma zero_requests_no_duplicate: "no_duplicate_active zero_requests"
  by (simp add: no_duplicate_active_def zero_requests_def)

lemma apply_request_op_keeps:
  "no_duplicate_active tbl \<Longrightarrow> no_duplicate_active (apply_request_op tbl x)"
  by (cases x) (simp_all add: mark_request_active_keeps mark_request_inactive_keeps)

lemma foldl_request_ops_keep:
  "no_duplicate_active tbl \<Longrightarrow> no_duplicate_active (foldl apply_request_op tbl ops)"
  by (induction ops arbitrary: tbl) (simp_all add: apply_request_op_keeps)

lemma task_function_table:
  "snd (playback_recording_task_function catalog on_disk (Some t) tbl)
     = mark_request_inactive (task_id t) tbl"
  by (simp add: playback_recording_task_function_def Let_def split: option.splits)

text \<open>
  C8. While an id is active in the table, \<^verbatim>\<open>mark_request_active\<close> returns false and
  leaves the table as it is, and the handler answers 429 without giving a task to the
  thread pool; the table reached from the zeroed table by any sequence of
  \<^verbatim>\<open>mark_request_active\<close> and \<^verbatim>\<open>mark_request_inactive\<close> calls never holds two active
  entries with one id, and both calls keep that property; the playback task ends, on each
  of its paths, by \<^verbatim>\<open>mark_request_inactive\<close> on its id, after which the id is not active.
\<close>

theorem playback_request_deduplicated:
  "(is_request_active i tbl \<longrightarrow>
       mark_request_active i tbl = (False, tbl)
       \<and> (\<forall>env st. initialized st \<and> g_active_requests st = tbl \<and> i \<noteq> 0 \<longrightarrow>
             mg_handle_play_recording env (Some i) st
               = (Some (Reply 429 ''This recording is already being processed''),
                  None, st)))
   \<and> no_duplicate_active (foldl apply_request_op zero_requests ops)
   \<and> (no_duplicate_active tbl \<longrightarrow>
         no_duplicate_active (snd (mark_request_active i tbl))
         \<and> no_duplicate_active (mark_request_inactive i tbl)
         \<and> \<not> is_request_active (task_id t)
               (snd (playback_recording_task_function catalog on_disk (Some t) tbl)))"
proof (intro conjI impI allI)
  assume "is_request_active i tbl"
  then show "mark_request_active i tbl = (False, tbl)"
    by (simp add: mark_request_active_def)
next
  fix env and st :: playback_state
  assume "is_request_active i tbl"
    and "initialized st \<and> g_active_requests st = tbl \<and> i \<noteq> 0"
  then show "mg_handle_play_recording env (Some i) st
               = (Some (Reply 429 ''This recording is already being processed''),
                  None, st)"
    by (simp add: mg_handle_play_recording_def init_active_requests_def Let_def)
next
  show "no_duplicate_active (foldl apply_request_op zero_requests ops)"
    by (rule foldl_request_ops_keep [OF zero_requests_no_duplicate])
next
  assume "no_duplicate_active tbl"
  then show "no_duplicate_active (snd (mark_request_active i tbl))"
    by (rule mark_request_active_keeps)
next
  assume "no_duplicate_active tbl"
  then show "no_duplicate_active (mark_request_inactive i tbl)"
    by (rule mark_request_inactive_keeps)
next
  assume "no_duplicate_active tbl"
  then show "\<not> is_request_active (task_id t)
               (snd (playback_recording_task_function catalog on_disk (Some t) tbl))"
    by (simp add: task_function_table mark_request_inactive_clears)
qed

text \<open>
  C8 at a table whose first entry holds the active id 7: a second start for 7 is refused,
  and after the task for 7 has run the id is inactive.
\<close>

theorem playback_request_deduplicated_witness:
  "mark_request_active 7 [\<lparr> req_id = 7, active = True \<rparr>, \<lparr> req_id = 0, active = False \<rparr>]
     = (False, [\<lparr> req_id = 7, active = True \<rparr>, \<lparr> req_id = 0, active = False \<rparr>])
   \<and> mg_handle_play_recording
        \<lparr> hm_copy_ok = True, pool_ok = True, task_create_ok = True, add_task_ok = True \<rparr>
        (Some 7)
        \<lparr> g_active_requests =
            [\<lparr> req_id = 7, active = True \<rparr>, \<lparr> req_id = 0, active = False \<rparr>],
          initialized = True \<rparr>
      = (Some (Reply 429 ''This recording is already being processed''), None,
         \<lparr> g_active_requests =
            [\<lparr> req_id = 7, active = True \<rparr>, \<lparr> req_id = 0, active = False \<rparr>],
           initialized = True \<rparr>)
   \<and> \<not> is_request_active 7
         (snd (playback_recording_task_function (\<lambda>_. None) (\<lambda>_. False)
                 (Some \<lparr> connection = Some \<lparr> is_closing = False \<rparr>, task_id = 7 \<rparr>)
                 [\<lparr> req_id = 7, active = True \<rparr>, \<lparr> req_id = 0, active = False \<rparr>]))"
proof -
  let ?tbl = "[\<lparr> req_id = 7, active = True \<rparr>, \<lparr> req_id = 0, active = False \<rparr>]"
  let ?env = "\<lparr> hm_copy_ok = True, pool_ok = True, task_create_ok = True,
                 add_task_ok = True \<rparr>"
  let ?st = "\<lparr> g_active_requests = ?tbl, initialized = True \<rparr>"
  let ?t = "\<lparr> connection = Some \<lparr> is_closing = False \<rparr>, task_id = 7 \<rparr>"
  have a: "is_request_active 7 ?tbl" by simp
  have d: "no_duplicate_active ?tbl" by (simp add: no_duplicate_active_def)
  have s: "initialized ?st \<and> g_active_requests ?st = ?tbl \<and> (7::nat) \<noteq> 0" by simp
  from playback_request_deduplicated
         [of 7 ?tbl "[]" ?t "\<lambda>_. None" "\<lambda>_. False"] a d s
  show ?thesis by (simp del: is_request_active.simps)
qed

section \<open>Properties of the playback task\<close>

text \<open>
  C9. On a connection that is open, the playback task replies 404 exactly when the catalog
  lookup for the id finds no row or the row's file is not on disk, and in those cases it
  hands no file to the file server; otherwise it serves the row's file.
\<close>

theorem playback_404_iff_missing:
  assumes "connection t = Some c" and "\<not> is_closing c"
  shows "((\<exists>b. Reply 404 b
             \<in> set (fst (playback_recording_task_function catalog on_disk (Some t) tbl)))
          = (catalog (task_id t) = None
             \<or> (\<exists>r. catalog (task_id t) = Some r \<and> \<not> on_disk (file_path r))))
       \<and> (catalog (task_id t) = None
             \<or> (\<exists>r. catalog (task_id t) = Some r \<and> \<not> on_disk (file_path r))
           \<longrightarrow> (\<forall>p m. Serve_file p m
                  \<notin> set (fst (playback_recording_task_function catalog on_disk (Some t) tbl))))
       \<and> (\<forall>r. catalog (task_id t) = Some r \<and> on_disk (file_path r)
           \<longrightarrow> fst (playback_recording_task_function catalog on_disk (Some t) tbl)
                 = [Serve_file (file_path r) (content_type_of (file_path r))])"
  using assms
  by (auto simp: playback_recording_task_function_def Let_def split: option.splits)

text \<open>
  C9 at three requests: an id without a row, a row whose file is gone, and a row whose
  file is on disk.
\<close>

theorem playback_404_iff_missing_witness:
  "(\<exists>b. Reply 404 b \<in> set (fst (playback_recording_task_function
        (\<lambda>i. if i = 7 then Some \<lparr> file_path = ''/rec/cam/7.mp4'' \<rparr> else None)
        (\<lambda>p. False)
        (Some \<lparr> connection = Some \<lparr> is_closing = False \<rparr>, task_id = 7 \<rparr>) [])))
   \<and> (\<exists>b. Reply 404 b \<in> set (fst (playback_recording_task_function
        (\<lambda>i. if i = 7 then Some \<lparr> file_path = ''/rec/cam/7.mp4'' \<rparr> else None)
        (\<lambda>p. True)
        (Some \<lparr> connection = Some \<lparr> is_closing = False \<rparr>, task_id = 8 \<rparr>) [])))
   \<and> fst (playback_recording_task_function
        (\<lambda>i. if i = 7 then Some \<lparr> file_path = ''/rec/cam/7.mp4'' \<rparr> else None)
        (\<lambda>p. True)
        (Some \<lparr> connection = Some \<lparr> is_closing = False \<rparr>, task_id = 7 \<rparr>) [])
      = [Serve_file ''/rec/cam/7.mp4'' (content_type_of ''/rec/cam/7.mp4'')]"
proof -
  let ?cat = "\<lambda>i::nat. if i = 7 then Some \<lparr> file_path = ''/rec/cam/7.mp4'' \<rparr> else None"
  let ?c = "\<lparr> is_closing = False \<rparr>"
  let ?t7 = "\<lparr> connection = Some ?c, task_id = 7 \<rparr>"
  let ?t8 = "\<lparr> connection = Some ?c, task_id = 8 \<rparr>"
  have c7: "connection ?t7 = Some ?c" and c8: "connection ?t8 = Some ?c"
    and o: "\<not> is_closing ?c"
    by simp_all
  from playback_404_iff_missing [OF c7 o, of ?cat "\<lambda>p. False" "[]"]
  have 1: "\<exists>b. Reply 404 b \<in> set (fst (playback_recording_task_function
        ?cat (\<lambda>p. False) (Some ?t7) []))"
    by simp
  from playback_404_iff_missing [OF c8 o, of ?cat "\<lambda>p. True" "[]"]
  have 2: "\<exists>b. Reply 404 b \<in> set (fst (playback_recording_task_function
        ?cat (\<lambda>p. True) (Some ?t8) []))"
    by simp
  from playback_404_iff_missing [OF c7 o, of ?cat "\<lambda>p. True" "[]"]
  have 3: "fst (playback_recording_task_function ?cat (\<lambda>p. True) (Some ?t7) [])
      = [Serve_file ''/rec/cam/7.mp4'' (content_type_of ''/rec/cam/7.mp4'')]"
    by simp
  from 1 2 3 show ?thesis by blast
qed

section \<open>Properties of the writer registry\<close>

lemma find_register_slot_append:
  assumes "\<forall>j \<in> set xs. ws ! j \<noteq> None \<and> \<not> (ns ! j \<noteq> [] \<and> ns ! j = l)"
  shows "find_register_slot ws ns l (xs @ ys) = find_register_slot ws ns l ys"
  using assms by (induction xs) auto

lemma find_writer_append:
  assumes "\<forall>j \<in> set xs. \<not> (ws ! j \<noteq> None \<and> ns ! j \<noteq> [] \<and> ns ! j = l)"
  shows "find_writer ws ns l (xs @ ys) = find_writer ws ns l ys"
  using assms by (induction xs) auto

lemma find_frame_buffer_none:
  assumes "\<forall>j \<in> set xs. ns ! j \<noteq> l"
  shows "find_frame_buffer fbs ns l xs = None"
  using assms by (induction xs) auto

lemma find_writer_some:
  "find_writer ws ns l xs = Some i
     \<Longrightarrow> i \<in> set xs \<and> ws ! i \<noteq> None \<and> ns ! i \<noteq> [] \<and> ns ! i = l"
  by (induction xs) (auto split: if_splits)

lemma upt_split: "i < n \<Longrightarrow> [0..<n] = [0..<i] @ i # [Suc i..<n]"
  by (metis le_add1 less_imp_add_positive plus_nat.add_0 upt_add_eq_append upt_conv_Cons)

lemma find_register_slot_existing:
  assumes "i < n" and "ws ! i \<noteq> None" and "ns ! i = l" and "l \<noteq> []"
    and "\<forall>j < i. ws ! j \<noteq> None \<and> ns ! j \<noteq> l"
  shows "find_register_slot ws ns l [0..<n] = Existing_slot i"
proof -
  have "find_register_slot ws ns l ([0..<i] @ i # [Suc i..<n])
          = find_register_slot ws ns l (i # [Suc i..<n])"
    using assms(5) by (intro find_register_slot_append) simp
  with assms show ?thesis by (simp add: upt_split [OF assms(1)])
qed

lemma find_register_slot_free:
  assumes "i < n" and "ws ! i = None"
    and "\<forall>j < i. ws ! j \<noteq> None \<and> \<not> (ns ! j \<noteq> [] \<and> ns ! j = l)"
  shows "find_register_slot ws ns l [0..<n] = Free_slot i"
proof -
  have "find_register_slot ws ns l ([0..<i] @ i # [Suc i..<n])
          = find_register_slot ws ns l (i # [Suc i..<n])"
    using assms(3) by (intro find_register_slot_append) simp
  with assms show ?thesis by (simp add: upt_split [OF assms(1)])
qed

lemma find_writer_first:
  assumes "i < n" and "ws ! i \<noteq> None" and "ns ! i = l" and "l \<noteq> []"
    and "\<forall>j < i. ns ! j \<noteq> l"
  shows "find_writer ws ns l [0..<n] = Some i"
proof -
  have "find_writer ws ns l ([0..<i] @ i # [Suc i..<n])
          = find_writer ws ns l (i # [Suc i..<n])"
    using assms(5) by (intro find_writer_append) simp
  with assms show ?thesis by (simp add: upt_split [OF assms(1)])
qed

lemma flush_existing_registry:
  "mp4_writers (flush_existing env l w st) = mp4_writers st
   \<and> mp4_writer_stream_names (flush_existing env l w st) = mp4_writer_stream_names st"
  by (simp add: flush_existing_def Let_def split: option.splits)

lemma flush_existing_calls:
  "\<exists>pre. calls (flush_existing env l w st) = calls st @ pre"
  by (simp add: flush_existing_def Let_def split: option.splits)

text \<open>
  C1 fails on the code. Register \<open>front\<close> and \<open>yard\<close>, unregister \<open>front\<close>, register \<open>yard\<close>
  again: the loop stops at the freed slot 0 before it reaches the slot of \<open>yard\<close>, so the
  new writer 3 is stored beside the old writer 2, which is neither replaced nor closed.
\<close>

theorem register_after_gap_two_writers:
  "(let e = test_env 0 10;
        s1 = snd (register_mp4_writer_for_stream e (Some ''front'') (Some 1) empty_registry);
        s2 = snd (register_mp4_writer_for_stream e (Some ''yard'') (Some 2) s1);
        s3 = unregister_mp4_writer_for_stream e (Some ''front'') s2;
        s4 = snd (register_mp4_writer_for_stream e (Some ''yard'') (Some 3) s3)
    in mp4_writers s4 = [Some 3, Some 2, None, None]
       \<and> mp4_writer_stream_names s4 = [''yard'', ''yard'', [], []]
       \<and> writers_of s4 ''yard'' = [3, 2]
       \<and> calls s4 = [])"
  by code_simp

text \<open>
  C3, as stated, fails: the function returns the status 0 and not the previous writer,
  and it closes the previous writer itself before it returns.
\<close>

theorem register_replace_closes_counterexample:
  "(let e = test_env 0 10;
        s1 = snd (register_mp4_writer_for_stream e (Some ''cam'') (Some 1) empty_registry);
        r = register_mp4_writer_for_stream e (Some ''cam'') (Some 2) s1
    in fst r = 0 \<and> calls (snd r) = [Mp4_writer_close 1]
       \<and> \<not> (Mp4_writer_close 1 \<notin> set (calls (snd r))))"
  by code_simp

text \<open>
  C3, amended. When the writer \<open>w1\<close> of a stream is in slot \<open>i\<close>, no slot before \<open>i\<close> is
  empty and no other slot carries the stream's name, registering \<open>w2\<close> for the stream
  returns 0, puts \<open>w2\<close> in slot \<open>i\<close> and leaves every other slot and all names as they
  were, calls \<^verbatim>\<open>mp4_writer_close\<close> on \<open>w1\<close> itself, and afterwards every slot with the
  stream's name holds \<open>w2\<close>, which is what \<^verbatim>\<open>get_mp4_writer_for_stream\<close> returns.
\<close>

theorem register_replaces_existing:
  assumes ok: "arrays_ok env st"
    and l: "l = take (MAX_STREAM_NAME env - 1) nm" "l \<noteq> []"
    and i: "i < MAX_STREAMS env" "mp4_writers st ! i = Some w1"
      "mp4_writer_stream_names st ! i = l"
    and full: "\<forall>j < i. mp4_writers st ! j \<noteq> None"
    and uniq: "\<forall>j < MAX_STREAMS env. j \<noteq> i \<longrightarrow> mp4_writer_stream_names st ! j \<noteq> l"
  shows "fst (register_mp4_writer_for_stream env (Some nm) (Some w2) st) = 0
    \<and> mp4_writers (snd (register_mp4_writer_for_stream env (Some nm) (Some w2) st))
        = (mp4_writers st)[i := Some w2]
    \<and> mp4_writer_stream_names (snd (register_mp4_writer_for_stream env (Some nm) (Some w2) st))
        = mp4_writer_stream_names st
    \<and> Mp4_writer_close w1
        \<in> set (calls (snd (register_mp4_writer_for_stream env (Some nm) (Some w2) st)))
    \<and> (\<forall>j < MAX_STREAMS env.
          mp4_writer_stream_names (snd (register_mp4_writer_for_stream env (Some nm) (Some w2) st)) ! j = l
          \<longrightarrow> mp4_writers (snd (register_mp4_writer_for_stream env (Some nm) (Some w2) st)) ! j
                = Some w2)
    \<and> get_mp4_writer_for_stream env (Some nm)
         (snd (register_mp4_writer_for_stream env (Some nm) (Some w2) st)) = Some w2"
proof -
  let ?ws = "mp4_writers st" and ?ns = "mp4_writer_stream_names st"
  let ?st1 = "st\<lparr> mp4_writers := ?ws[i := Some w2] \<rparr>"
  let ?st2 = "flush_existing env l w2 ?st1"
  let ?r = "register_mp4_writer_for_stream env (Some nm) (Some w2) st"
  have before: "\<forall>j < i. ?ws ! j \<noteq> None \<and> ?ns ! j \<noteq> l"
    using full uniq i(1) by auto
  have slot: "find_register_slot ?ws ?ns l [0..<MAX_STREAMS env] = Existing_slot i"
    using i l(2) before by (intro find_register_slot_existing) auto
  have r: "?r = (0, ?st2\<lparr> calls := calls ?st2 @ [Mp4_writer_close w1] \<rparr>)"
    using slot i(2) l(1) by (simp add: register_mp4_writer_for_stream_def Let_def)
  have ws: "mp4_writers (snd ?r) = ?ws[i := Some w2]"
    and ns: "mp4_writer_stream_names (snd ?r) = ?ns"
    using r flush_existing_registry [of env l w2 ?st1] by simp_all
  have len: "i < length ?ws" using ok i(1) by (simp add: arrays_ok_def)
  have all: "\<forall>j < MAX_STREAMS env. mp4_writer_stream_names (snd ?r) ! j = l
          \<longrightarrow> mp4_writers (snd ?r) ! j = Some w2"
  proof (intro allI impI)
    fix j assume "j < MAX_STREAMS env" and "mp4_writer_stream_names (snd ?r) ! j = l"
    with uniq ns have "j = i" by auto
    with ws len show "mp4_writers (snd ?r) ! j = Some w2" by simp
  qed
  have "find_writer (?ws[i := Some w2]) ?ns l [0..<MAX_STREAMS env] = Some i"
    using i l(2) before len by (intro find_writer_first) auto
  moreover have "nm \<noteq> []" using l by auto
  ultimately have "get_mp4_writer_for_stream env (Some nm) (snd ?r) = Some w2"
    using ws ns l(1) len by (simp add: get_mp4_writer_for_stream_def Let_def)
  with r ws ns all show ?thesis by simp
qed

text \<open>C3 (amended) for the stream \<open>cam\<close> in slot 0, with the writer 1 replaced by 2.\<close>

theorem register_replaces_existing_witness:
  "(let st = \<lparr> mp4_writers = [Some 1, None, None, None],
                mp4_writer_stream_names = [''cam'', [], [], []],
                frame_buffers = replicate 4 \<lparr> frames = None \<rparr>, calls = [] \<rparr>;
        r = register_mp4_writer_for_stream (test_env 0 10) (Some ''cam'') (Some 2) st
    in fst r = 0 \<and> mp4_writers (snd r) = [Some 2, None, None, None]
       \<and> Mp4_writer_close 1 \<in> set (calls (snd r))
       \<and> get_mp4_writer_for_stream (test_env 0 10) (Some ''cam'') (snd r) = Some 2)"
proof -
  let ?st = "\<lparr> mp4_writers = [Some 1, None, None, None],
                mp4_writer_stream_names = [''cam'', [], [], []],
                frame_buffers = replicate 4 \<lparr> frames = None \<rparr>, calls = [] \<rparr>"
  let ?e = "test_env 0 10"
  have ok: "arrays_ok ?e ?st" by (simp add: arrays_ok_def test_env_def)
  have l: "''cam'' = take (MAX_STREAM_NAME ?e - 1) ''cam''" "''cam'' \<noteq> []"
    by (simp_all add: test_env_def)
  have i: "0 < MAX_STREAMS ?e" "mp4_writers ?st ! 0 = Some 1"
    "mp4_writer_stream_names ?st ! 0 = ''cam''"
    by (simp_all add: test_env_def)
  have full: "\<forall>j < (0::nat). mp4_writers ?st ! j \<noteq> None" by simp
  have uniq: "\<forall>j < MAX_STREAMS ?e. j \<noteq> 0 \<longrightarrow> mp4_writer_stream_names ?st ! j \<noteq> ''cam''"
  proof (intro allI impI)
    fix j :: nat assume "j < MAX_STREAMS ?e" and "j \<noteq> 0"
    then have "j = 1 \<or> j = 2 \<or> j = 3" by (auto simp: test_env_def)
    then show "mp4_writer_stream_names ?st ! j \<noteq> ''cam''" by auto
  qed
  from register_replaces_existing [OF ok l i full uniq, of 2]
  show ?thesis by (simp add: Let_def)
qed

text \<open>
  C4 fails on the code. The stream \<open>cam\<close> has the writer 1 in slot 0 and an allocated
  frame buffer at index 0. Unregistering clears the slot (the writer is not closed) and
  its name, and only then looks for the buffer by that name: nothing is found,
  \<^verbatim>\<open>free_frame_buffer\<close> is not called and the buffer stays allocated.
\<close>

theorem unregister_leaves_frame_buffer:
  "(let st = \<lparr> mp4_writers = [Some 1, None, None, None],
                mp4_writer_stream_names = [''cam'', [], [], []],
                frame_buffers = [\<lparr> frames = Some 100 \<rparr>, \<lparr> frames = None \<rparr>,
                                 \<lparr> frames = None \<rparr>, \<lparr> frames = None \<rparr>],
                calls = [] \<rparr>;
        st' = unregister_mp4_writer_for_stream (test_env 5 10) (Some ''cam'') st
    in mp4_writers st' = [None, None, None, None]
       \<and> mp4_writer_stream_names st' = replicate 4 []
       \<and> frames (frame_buffers st' ! 0) = Some 100
       \<and> calls st' = [])"
  by code_simp

lemma unregister_never_frees:
  assumes ok: "arrays_ok env st"
    and uniq: "\<forall>j < MAX_STREAMS env. \<forall>k < MAX_STREAMS env.
                 mp4_writer_stream_names st ! j = take (MAX_STREAM_NAME env - 1) nm
                 \<and> mp4_writer_stream_names st ! k = take (MAX_STREAM_NAME env - 1) nm
                 \<longrightarrow> j = k"
  shows "frame_buffers (unregister_mp4_writer_for_stream env (Some nm) st) = frame_buffers st
       \<and> calls (unregister_mp4_writer_for_stream env (Some nm) st) = calls st"
proof (cases "find_writer (mp4_writers st) (mp4_writer_stream_names st)
                (take (MAX_STREAM_NAME env - 1) nm) [0..<MAX_STREAMS env]")
  case None
  then show ?thesis by (simp add: unregister_mp4_writer_for_stream_def)
next
  case (Some idx)
  let ?l = "take (MAX_STREAM_NAME env - 1) nm"
  let ?ns = "mp4_writer_stream_names st"
  from find_writer_some [OF Some]
  have idx: "idx < MAX_STREAMS env" "?ns ! idx = ?l" "?l \<noteq> []" by auto
  have "\<forall>j \<in> set [0..<MAX_STREAMS env]. ?ns[idx := []] ! j \<noteq> ?l"
  proof
    fix j assume "j \<in> set [0..<MAX_STREAMS env]"
    then have j: "j < MAX_STREAMS env" by simp
    show "?ns[idx := []] ! j \<noteq> ?l"
    proof (cases "j = idx")
      case True
      with idx ok show ?thesis by (simp add: arrays_ok_def)
    next
      case False
      with uniq j idx have "?ns ! j \<noteq> ?l" by blast
      with False show ?thesis by simp
    qed
  qed
  then have "find_frame_buffer (frame_buffers st) (?ns[idx := []]) ?l [0..<MAX_STREAMS env]
               = None"
    by (rule find_frame_buffer_none)
  with Some show ?thesis
    by (simp add: unregister_mp4_writer_for_stream_def Let_def)
qed

lemma int32_id: "- (2 ^ 31) \<le> x \<Longrightarrow> x < 2 ^ 31 \<Longrightarrow> int32 x = x"
  by (simp add: int32_def)

text \<open>
  C5. When a writer is registered in a new slot for a stream whose configuration has
  pre-buffer seconds \<open>p > 0\<close> and frame rate \<open>f\<close> (the product within the range of a C
  \<^verbatim>\<open>int\<close>), the one frame buffer that is created is created with the capacity
  \<open>min (p * f) MAX_PREBUFFER_FRAMES\<close>; for \<open>p * f \<le> 0\<close> no buffer is created.
\<close>

theorem prebuffer_capacity_clamped:
  assumes l: "l = take (MAX_STREAM_NAME env - 1) nm"
    and slot: "slot < MAX_STREAMS env" "mp4_writers st ! slot = None"
      "\<forall>j < slot. mp4_writers st ! j \<noteq> None \<and> mp4_writer_stream_names st ! j \<noteq> l"
    and cfg: "get_stream_config env l = Some config"
    and p: "0 < pre_detection_buffer config"
    and range: "- (2 ^ 31) \<le> pre_detection_buffer config * fps config"
      "pre_detection_buffer config * fps config < 2 ^ 31"
  shows "fst (register_mp4_writer_for_stream env (Some nm) (Some w) st) = 0
    \<and> (if 0 < pre_detection_buffer config * fps config
        then calls (snd (register_mp4_writer_for_stream env (Some nm) (Some w) st))
               = calls st @ [Init_frame_buffer l
                   (min (pre_detection_buffer config * fps config) (MAX_PREBUFFER_FRAMES env))]
             \<and> frame_buffers (snd (register_mp4_writer_for_stream env (Some nm) (Some w) st))
               = init_frame_buffer env l
                   (min (pre_detection_buffer config * fps config) (MAX_PREBUFFER_FRAMES env))
                   (frame_buffers st)
        else calls (snd (register_mp4_writer_for_stream env (Some nm) (Some w) st)) = calls st
             \<and> frame_buffers (snd (register_mp4_writer_for_stream env (Some nm) (Some w) st))
               = frame_buffers st)"
proof -
  have s: "find_register_slot (mp4_writers st) (mp4_writer_stream_names st) l
             [0..<MAX_STREAMS env] = Free_slot slot"
    using slot by (intro find_register_slot_free) auto
  have c: "int32 (pre_detection_buffer config * fps config)
             = pre_detection_buffer config * fps config"
    using range by (rule int32_id)
  show ?thesis
    using s c cfg p l
    by (simp add: register_mp4_writer_for_stream_def init_prebuffer_def Let_def min_def)
qed

text \<open>
  C5 at start-up: 5 seconds at 10 frames per second give a buffer of 50 frames, 60 seconds
  at 30 frames per second give the maximum of 300.
\<close>

theorem prebuffer_capacity_clamped_witness:
  "calls (snd (register_mp4_writer_for_stream (test_env 5 10) (Some ''cam'') (Some 1)
                 empty_registry))
     = [Init_frame_buffer ''cam'' 50]
   \<and> calls (snd (register_mp4_writer_for_stream (test_env 60 30) (Some ''cam'') (Some 1)
                 empty_registry))
     = [Init_frame_buffer ''cam'' 300]"
proof -
  have a: "calls (snd (register_mp4_writer_for_stream (test_env 5 10) (Some ''cam'') (Some 1)
                 empty_registry)) = [Init_frame_buffer ''cam'' 50]"
    using prebuffer_capacity_clamped [of "''cam''" "test_env 5 10" "''cam''" 0
            empty_registry "cam_config\<lparr> name := ''cam'', pre_detection_buffer := 5,
              fps := 10 \<rparr>" 1]
    by (simp add: test_env_def empty_registry_def)
  have b: "calls (snd (register_mp4_writer_for_stream (test_env 60 30) (Some ''cam'') (Some 1)
                 empty_registry)) = [Init_frame_buffer ''cam'' 300]"
    using prebuffer_capacity_clamped [of "''cam''" "test_env 60 30" "''cam''" 0
            empty_registry "cam_config\<lparr> name := ''cam'', pre_detection_buffer := 60,
              fps := 30 \<rparr>" 1]
    by (simp add: test_env_def empty_registry_def)
  from a b show ?thesis by simp
qed

section \<open>Properties of the timeline manifest\<close>

lemma max_duration_loop_ge: "m \<le> max_duration_loop ss m"
proof (induction ss arbitrary: m)
  case Nil
  then show ?case by simp
next
  case (Cons s ss)
  let ?m = "if seg_end_time s - seg_start_time s > m
            then seg_end_time s - seg_start_time s else m"
  have "m \<le> ?m" by simp
  also have "?m \<le> max_duration_loop ss ?m" by (rule Cons.IH)
  finally show ?case by (simp add: Let_def)
qed

lemma max_duration_loop_bounds:
  "s \<in> set ss \<Longrightarrow> seg_end_time s - seg_start_time s \<le> max_duration_loop ss m"
proof (induction ss arbitrary: m)
  case Nil
  then show ?case by simp
next
  case (Cons a ss)
  let ?m = "if seg_end_time a - seg_start_time a > m
            then seg_end_time a - seg_start_time a else m"
  show ?case
  proof (cases "s = a")
    case True
    have "seg_end_time s - seg_start_time s \<le> ?m" using True by simp
    also have "?m \<le> max_duration_loop ss ?m" by (rule max_duration_loop_ge)
    finally show ?thesis by (simp add: Let_def)
  next
    case False
    with Cons.prems have "s \<in> set ss" by simp
    then show ?thesis using Cons.IH by (simp add: Let_def)
  qed
qed

lemma max_duration_loop_attained:
  "max_duration_loop ss m = m
   \<or> (\<exists>s \<in> set ss. max_duration_loop ss m = seg_end_time s - seg_start_time s)"
proof (induction ss arbitrary: m)
  case Nil
  then show ?case by simp
next
  case (Cons a ss)
  let ?m = "if seg_end_time a - seg_start_time a > m
            then seg_end_time a - seg_start_time a else m"
  from Cons.IH [of ?m] show ?case
    by (auto simp: Let_def split: if_splits)
qed

lemma take_segment_count:
  "take (min (length segments) MAX_MANIFEST_SEGMENTS) segments
     = take MAX_MANIFEST_SEGMENTS segments"
  by (simp add: min_def)

text \<open>
  C6, as stated, fails: for two catalog segments in the range the playlist holds one
  segment descriptor, not one per segment.
\<close>

theorem manifest_two_segments_counterexample:
  "create_timeline_manifest manifest_env0 two_segments 1000
     = (0, Some (''/var/lib/lightnvr/timeline_manifests/manifest_2000_cam_1000.m3u8'',
          [''#EXTM3U'', ''#EXT-X-VERSION:3'', ''#EXT-X-MEDIA-SEQUENCE:0'',
           ''#EXT-X-ALLOW-CACHE:YES'', ''#EXT-X-TARGETDURATION:91'',
           ''#EXTINF:90.000000,'', ''/api/timeline/play?stream=cam&start=1000'',
           ''#EXT-X-ENDLIST'']))
   \<and> length two_segments = 2
   \<and> extinf_count
        [''#EXTM3U'', ''#EXT-X-VERSION:3'', ''#EXT-X-MEDIA-SEQUENCE:0'',
         ''#EXT-X-ALLOW-CACHE:YES'', ''#EXT-X-TARGETDURATION:91'',
         ''#EXTINF:90.000000,'', ''/api/timeline/play?stream=cam&start=1000'',
         ''#EXT-X-ENDLIST''] = 1"
  by code_simp

text \<open>
  C6, amended. For every non-empty list of segments (and a file that can be created) the
  function returns 0 and writes a playlist with exactly one segment descriptor, whatever
  the number of segments: its duration \<open>d\<close> is the longest duration among the first
  \<^verbatim>\<open>MAX_MANIFEST_SEGMENTS\<close> segments (0 when none is positive) and its URI is the timeline
  playback endpoint for the first segment's stream and the requested start time.
\<close>

theorem manifest_one_descriptor:
  assumes "segments \<noteq> []" and "fopen_ok env"
  shows "\<exists>path ls d.
           create_timeline_manifest env segments start_time = (0, Some (path, ls))
           \<and> extinf_count ls = 1
           \<and> ls ! 5 = ''#EXTINF:'' @ show_f6 d @ '',''
           \<and> ls ! 6 = ''/api/timeline/play?stream='' @ seg_stream_name (hd segments)
                         @ ''&start='' @ show_int start_time
           \<and> 0 \<le> d
           \<and> (\<forall>s \<in> set (take MAX_MANIFEST_SEGMENTS segments).
                 seg_end_time s - seg_start_time s \<le> d)
           \<and> (d = 0 \<or> (\<exists>s \<in> set (take MAX_MANIFEST_SEGMENTS segments).
                          d = seg_end_time s - seg_start_time s))"
proof -
  let ?ss = "take MAX_MANIFEST_SEGMENTS segments"
  let ?d = "max_duration_loop ?ss 0"
  let ?ls = "[''#EXTM3U'', ''#EXT-X-VERSION:3'', ''#EXT-X-MEDIA-SEQUENCE:0'',
              ''#EXT-X-ALLOW-CACHE:YES'', ''#EXT-X-TARGETDURATION:'' @ show_int (?d + 1),
              ''#EXTINF:'' @ show_f6 ?d @ '','',
              ''/api/timeline/play?stream='' @ seg_stream_name (hd segments)
                 @ ''&start='' @ show_int start_time,
              ''#EXT-X-ENDLIST'']"
  have r: "\<exists>path. create_timeline_manifest env segments start_time = (0, Some (path, ?ls))"
    using assms by (simp add: create_timeline_manifest_def Let_def take_segment_count)
  have c: "extinf_count ?ls = 1" by (simp add: extinf_count_def)
  have 5: "?ls ! 5 = ''#EXTINF:'' @ show_f6 ?d @ '',''" by simp
  have 6: "?ls ! 6 = ''/api/timeline/play?stream='' @ seg_stream_name (hd segments)
                         @ ''&start='' @ show_int start_time" by simp
  have 0: "0 \<le> ?d" by (rule max_duration_loop_ge)
  have b: "\<forall>s \<in> set ?ss. seg_end_time s - seg_start_time s \<le> ?d"
    by (simp add: max_duration_loop_bounds)
  have a: "?d = 0 \<or> (\<exists>s \<in> set ?ss. ?d = seg_end_time s - seg_start_time s)"
    by (rule max_duration_loop_attained)
  from r c 5 6 0 b a show ?thesis by blast
qed

text \<open>C6 (amended) for the two segments of 60 and 90 seconds.\<close>

theorem manifest_one_descriptor_witness:
  "\<exists>path ls. create_timeline_manifest manifest_env0 two_segments 1000 = (0, Some (path, ls))
      \<and> extinf_count ls = 1
      \<and> ls ! 6 = ''/api/timeline/play?stream=cam&start='' @ show_int 1000"
proof -
  have n: "two_segments \<noteq> []" by (simp add: two_segments_def)
  have f: "fopen_ok manifest_env0" by (simp add: manifest_env0_def)
  have h: "seg_stream_name (hd two_segments) = ''cam''" by (simp add: two_segments_def)
  from manifest_one_descriptor [OF n f, of 1000] h show ?thesis
    by auto
qed

section \<open>Properties of the time parameters\<close>


lemma digit_char_facts:
  assumes "k < 10"
  shows "is_digit (digit_char k)" and "digit_val (digit_char k) = k"
    and "\<not> isspace (digit_char k)" and "digit_char k \<noteq> CHR ''%''"
proof -
  from assms have "k = 0 \<or> k = 1 \<or> k = 2 \<or> k = 3 \<or> k = 4 \<or> k = 5 \<or> k = 6 \<or> k = 7
      \<or> k = 8 \<or> k = 9"
    by arith
  then show "is_digit (digit_char k)" and "digit_val (digit_char k) = k"
    and "\<not> isspace (digit_char k)" and "digit_char k \<noteq> CHR ''%''"
    by (auto simp: digit_char_def is_digit_def digit_val_def isspace_def)
qed

lemma get_digits_last:
  assumes "v * 10 \<le> to" and "k < 10"
  shows "get_digits (Suc 0) to v (digit_char k # rest) = (v * 10 + k, rest)"
  using assms digit_char_facts(1,2) [OF assms(2)] by simp

lemma get_number_two_digits:
  assumes "from \<le> n" and "n \<le> to" and "n < 100"
  shows "get_number from to 2 (two_digits n @ rest) = Some (n, rest)"
proof -
  have a: "n div 10 < 10" and b: "n mod 10 < 10" using assms(3) by auto
  have c: "n div 10 * 10 \<le> to" using assms(2) by linarith
  have d: "n div 10 * 10 + n mod 10 = n" by presburger
  have e: "get_digits (Suc 0) to (n div 10) (digit_char (n mod 10) # rest) = (n, rest)"
    using get_digits_last [OF c b, of rest] d by presburger
  have f: "dropWhile isspace (digit_char (n div 10) # digit_char (n mod 10) # rest)
             = digit_char (n div 10) # digit_char (n mod 10) # rest"
    using digit_char_facts(3) [OF a] by simp
  show ?thesis
    unfolding get_number_def two_digits_def
    using assms(1,2) digit_char_facts(1,2) [OF a] e f
    by (simp del: get_digits.simps)
qed

lemma get_digits_step:
  assumes "v * 10 \<le> to" and "k < 10"
  shows "get_digits (Suc n) to v (digit_char k # rest) = get_digits n to (v * 10 + k) rest"
  using assms digit_char_facts(1,2) [OF assms(2)] by simp

lemma get_number_four_digits:
  assumes "n \<le> 9999"
  shows "get_number 0 9999 4 (four_digits n @ rest) = Some (n, rest)"
proof -
  define a b c d where "a = n div 1000" and "b = n div 100 mod 10"
    and "c = n div 10 mod 10" and "d = n mod 10"
  have "n < 10 * 1000" using assms by linarith
  then have a: "a < 10" unfolding a_def by (rule less_mult_imp_div_less)
  have b: "b < 10" and c: "c < 10" and d: "d < 10"
    unfolding b_def c_def d_def by simp_all
  have q2: "n div 100 = n div 10 div 10" and q3: "n div 1000 = n div 10 div 10 div 10"
    by (simp_all add: div_mult2_eq)
  have "(a * 10 + b) = n div 100"
    unfolding a_def b_def q2 q3 by (rule div_mult_mod_eq)
  then have "(a * 10 + b) * 10 + c = n div 10"
    unfolding c_def q2 by (simp only: div_mult_mod_eq)
  then have v: "((a * 10 + b) * 10 + c) * 10 + d = n"
    unfolding d_def by (simp only: div_mult_mod_eq)
  have 1: "a * 10 \<le> 9999" using a by linarith
  have 2: "(a * 10 + b) * 10 \<le> 9999" using a b by (simp add: algebra_simps)
  have 3: "((a * 10 + b) * 10 + c) * 10 \<le> 9999" using a b c by (simp add: algebra_simps)
  have "get_digits (Suc (Suc (Suc 0))) 9999 a
          (digit_char b # digit_char c # digit_char d # rest)
        = get_digits (Suc (Suc 0)) 9999 (a * 10 + b) (digit_char c # digit_char d # rest)"
    by (rule get_digits_step [OF 1 b])
  also have "\<dots> = get_digits (Suc 0) 9999 ((a * 10 + b) * 10 + c) (digit_char d # rest)"
    by (rule get_digits_step [OF 2 c])
  also have "\<dots> = get_digits 0 9999 (((a * 10 + b) * 10 + c) * 10 + d) rest"
    by (rule get_digits_step [OF 3 d])
  also have "\<dots> = (n, rest)" using v by simp
  finally have e: "get_digits (4 - 1) 9999 a
          (digit_char b # digit_char c # digit_char d # rest) = (n, rest)"
    by (simp add: numeral_3_eq_3)
  have f: "dropWhile isspace (digit_char a # digit_char b # digit_char c # digit_char d # rest)
             = digit_char a # digit_char b # digit_char c # digit_char d # rest"
    using digit_char_facts(3) [OF a] by simp
  have g: "four_digits n @ rest
             = digit_char a # digit_char b # digit_char c # digit_char d # rest"
    by (simp add: four_digits_def a_def b_def c_def d_def)
  show ?thesis
    unfolding get_number_def g f
    using assms digit_char_facts(1,2) [OF a] e
    by (simp del: get_digits.simps)
qed

lemma two_digits_plain:
  assumes "n < 100"
  shows "CHR ''%'' \<notin> set (two_digits n)"
proof -
  have "n div 10 < 10" and "n mod 10 < 10" using assms by auto
  then show ?thesis
    using digit_char_facts(4) [of "n div 10"] digit_char_facts(4) [of "n mod 10"]
    by (auto simp: two_digits_def)
qed

lemma four_digits_plain:
  assumes "n \<le> 9999"
  shows "CHR ''%'' \<notin> set (four_digits n)"
proof -
  have "n < 10 * 1000" using assms by linarith
  then have "n div 1000 < 10" by (rule less_mult_imp_div_less)
  moreover have "n div 100 mod 10 < 10" "n div 10 mod 10 < 10" "n mod 10 < 10"
    by simp_all
  ultimately show ?thesis
    using digit_char_facts(4) [of "n div 1000"] digit_char_facts(4) [of "n div 100 mod 10"]
      digit_char_facts(4) [of "n div 10 mod 10"] digit_char_facts(4) [of "n mod 10"]
    by (auto simp: four_digits_def)
qed

lemma replace_3A_plain: "CHR ''%'' \<notin> set s \<Longrightarrow> replace_3A s = s"
proof (induction s)
  case Nil
  then show ?case by (simp add: replace_3A.simps)
next
  case (Cons c cs)
  then have "c \<noteq> CHR ''%''" by auto
  then have "take 3 (c # cs) \<noteq> ''%3A''" by simp
  moreover have "replace_3A cs = cs" using Cons by simp
  ultimately show ?case by (subst replace_3A.simps) simp
qed

lemma length_iso_string: "length (iso_string y m d h mi s) = 19"
  by (simp add: iso_string_def two_digits_def four_digits_def)

lemma strptime_iso_string:
  assumes "y \<le> 9999" and "1 \<le> m" and "m \<le> 12" and "1 \<le> d" and "d \<le> 31"
    and "h \<le> 23" and "mi \<le> 59" and "s \<le> 59"
  shows "strptime (iso_string y m d h mi s) ''%Y-%m-%dT%H:%M:%S'' tm_zero
           = Some \<lparr> tm_sec = int s, tm_min = int mi, tm_hour = int h, tm_mday = int d,
                    tm_mon = int m - 1, tm_year = int y - 1900, tm_isdst = 0 \<rparr>"
  using assms
  by (simp add: iso_string_def strptime_conv_def tm_zero_def
        get_number_two_digits get_number_four_digits
        get_number_two_digits [where rest = "[]", simplified])

lemma iso_string_plain:
  assumes "y \<le> 9999" and "m \<le> 12" and "d \<le> 31" and "h \<le> 23" and "mi \<le> 59"
    and "s \<le> 59"
  shows "replace_3A (take 63 (iso_string y m d h mi s)) = iso_string y m d h mi s"
proof -
  have "CHR ''%'' \<notin> set (iso_string y m d h mi s)"
    using assms four_digits_plain [of y] two_digits_plain [of m] two_digits_plain [of d]
      two_digits_plain [of h] two_digits_plain [of mi] two_digits_plain [of s]
    by (simp add: iso_string_def)
  then show ?thesis by (simp add: length_iso_string replace_3A_plain)
qed

lemma parse_iso_string:
  assumes "y \<le> 9999" and "1 \<le> m" and "m \<le> 12" and "1 \<le> d" and "d \<le> 31"
    and "h \<le> 23" and "mi \<le> 59" and "s \<le> 59"
  shows "parse_time_string gmtoff day_time (iso_string y m d h mi s)
           = Some (utc_seconds y m d h mi s - gmtoff)"
  using assms
  by (simp add: parse_time_string_def iso_string_plain strptime_iso_string
        mktime_def timegm_def utc_seconds_def del: strptime.simps)

text \<open>
  C7, as stated, fails: the same parameters give different query times on a server in
  UTC and on a server one hour east of UTC, and on the latter the values are not the UTC
  reading of the strings (1704067200 and 1704110400).
\<close>

theorem time_parameter_zone_counterexample:
  "timeline_query_range \<lparr> tz_gmtoff = 0, time_now = 0 \<rparr>
      ''2024-01-01T00:00:00'' ''2024-01-01T12:00:00'' = (1704067200, 1704110400)
   \<and> timeline_query_range \<lparr> tz_gmtoff = 3600, time_now = 0 \<rparr>
      ''2024-01-01T00:00:00'' ''2024-01-01T12:00:00'' = (1704063600, 1704106800)"
proof -
  have s: "''2024-01-01T00:00:00'' = iso_string 2024 1 1 0 0 0"
    and e: "''2024-01-01T12:00:00'' = iso_string 2024 1 1 12 0 0"
    by (simp_all add: iso_string_def two_digits_def four_digits_def digit_char_def)
  have u: "utc_seconds 2024 1 1 0 0 0 = 1704067200"
    and v: "utc_seconds 2024 1 1 12 0 0 = 1704110400"
    by (simp_all add: utc_seconds_def days_from_civil_def)
  have ps: "parse_time_string g t ''2024-01-01T00:00:00'' = Some (1704067200 - g)" for g t
    unfolding s using parse_iso_string [of 2024 1 1 0 0 0 g t] u by simp
  have pe: "parse_time_string g t ''2024-01-01T12:00:00'' = Some (1704110400 - g)" for g t
    unfolding e using parse_iso_string [of 2024 1 1 12 0 0 g t] v by simp
  show ?thesis by (simp add: timeline_query_range_def ps pe)
qed

text \<open>
  C7, amended. A start or end parameter of the form \<^verbatim>\<open>YYYY-MM-DDTHH:MM:SS\<close> is converted
  with \<^verbatim>\<open>mktime\<close>, that is, read as local time of the server: the query time is the UTC
  reading of the string minus the server's offset from UTC, and it is the UTC reading
  exactly when that offset is 0.
\<close>

theorem time_parameter_local_time:
  assumes "y \<le> 9999" and "1 \<le> m" and "m \<le> 12" and "1 \<le> d" and "d \<le> 31"
    and "h \<le> 23" and "mi \<le> 59" and "s \<le> 59"
  shows "fst (timeline_query_range env (iso_string y m d h mi s) end_time_str)
           = utc_seconds y m d h mi s - tz_gmtoff env
       \<and> snd (timeline_query_range env start_time_str (iso_string y m d h mi s))
           = utc_seconds y m d h mi s - tz_gmtoff env
       \<and> (fst (timeline_query_range env (iso_string y m d h mi s) end_time_str)
             = utc_seconds y m d h mi s) = (tz_gmtoff env = 0)"
proof -
  have n: "iso_string y m d h mi s \<noteq> []"
    using length_iso_string [of y m d h mi s] by auto
  show ?thesis
    using n parse_iso_string [OF assms]
    by (simp add: timeline_query_range_def Let_def)
qed

text \<open>C7 (amended) for noon of 1 January 2024 on a server one hour east of UTC.\<close>

theorem time_parameter_local_time_witness:
  "fst (timeline_query_range \<lparr> tz_gmtoff = 3600, time_now = 0 \<rparr>
          (iso_string 2024 1 1 12 0 0) [])
     = utc_seconds 2024 1 1 12 0 0 - 3600
   \<and> iso_string 2024 1 1 12 0 0 = ''2024-01-01T12:00:00''
   \<and> utc_seconds 2024 1 1 12 0 0 = 1704110400"
proof -
  have a: "fst (timeline_query_range \<lparr> tz_gmtoff = 3600, time_now = 0 \<rparr>
          (iso_string 2024 1 1 12 0 0) []) = utc_seconds 2024 1 1 12 0 0 - 3600"
    using time_parameter_local_time [of 2024 1 1 12 0 0
            "\<lparr> tz_gmtoff = 3600, time_now = 0 \<rparr>" "[]" "[]"]
    by simp
  have b: "iso_string 2024 1 1 12 0 0 = ''2024-01-01T12:00:00''"
    by (simp add: iso_string_def two_digits_def four_digits_def digit_char_def)
  have c: "utc_seconds 2024 1 1 12 0 0 = 1704110400"
    by (simp add: utc_seconds_def days_from_civil_def)
  from a b c show ?thesis by simp
qed

end
